theory Spec2Isabelle
  imports Main "HOL-Library.AList" "HOL-Library.Char_ord" "HOL-Library.List_Lexorder"
begin

section \<open>gowiki: route grammar, page repository and handlers of \<^verbatim>\<open>wiki.go\<close>\<close>

text \<open>
  The development embeds \<^verbatim>\<open>src/wiki.go\<close>. The program is a thin layer over Go's
  standard library, so the library calls it makes are modelled first, each from its documented
  behaviour: the regular-expression matcher (\<^verbatim>\<open>regexp\<close>), the file system calls
  of \<^verbatim>\<open>os\<close>, the lexical path functions and \<^verbatim>\<open>Glob\<close> of
  \<^verbatim>\<open>path/filepath\<close>, the three string functions of \<^verbatim>\<open>strings\<close>,
  and of \<^verbatim>\<open>net/http\<close> the parsing of the form and what the server and its
  multiplexer answer by themselves.
  The functions of \<^verbatim>\<open>wiki.go\<close> follow, under their own names.
\<close>

subsection \<open>strings\<close>

type_synonym bytes = string

definition HasPrefix :: "string \<Rightarrow> string \<Rightarrow> bool" where
  "HasPrefix s p = (take (length p) s = p)"

definition HasSuffix :: "string \<Rightarrow> string \<Rightarrow> bool" where
  "HasSuffix s x = (length x \<le> length s \<and> drop (length s - length x) s = x)"

definition TrimPrefix :: "string \<Rightarrow> string \<Rightarrow> string" where
  "TrimPrefix s p = (if HasPrefix s p then drop (length p) s else s)"

definition TrimSuffix :: "string \<Rightarrow> string \<Rightarrow> string" where
  "TrimSuffix s x = (if HasSuffix s x then take (length s - length x) s else s)"

subsection \<open>regexp: a backtracking matcher with submatches\<close>

text \<open>
  The fragment of the regular-expression syntax that \<^verbatim>\<open>validPath\<close> uses: the
  anchors \<^verbatim>\<open>^\<close> and \<^verbatim>\<open>$\<close> (without the multi-line flag they
  match at the beginning and at the end of the text only), literals, a character class given by
  its ranges, sequence, alternation, \<^verbatim>\<open>+\<close> and capturing groups. A non-capturing
  group \<^verbatim>\<open>(?:...)\<close> is plain bracketing.

  \<open>match r b s\<close> lists, in the order of preference of Go's leftmost-first semantics
  (earlier alternative first, \<^verbatim>\<open>+\<close> greedy), every way for \<open>r\<close> to match
  a prefix of \<open>s\<close>: the submatches of the groups of \<open>r\<close> in the order of their
  opening brackets (the empty string for a group that took no part), and the rest of the input.
  The flag \<open>b\<close> says that \<open>s\<close> starts at the beginning of the text.
\<close>

datatype regex =
    Begin
  | End
  | Lit string
  | Class "(char \<times> char) list"
  | Seq regex regex
  | Alt regex regex
  | Plus regex
  | Group regex

fun ngroups :: "regex \<Rightarrow> nat" where
  "ngroups (Seq a b) = ngroups a + ngroups b"
| "ngroups (Alt a b) = ngroups a + ngroups b"
| "ngroups (Plus a) = ngroups a"
| "ngroups (Group a) = Suc (ngroups a)"
| "ngroups _ = 0"

definition in_class :: "(char \<times> char) list \<Rightarrow> char \<Rightarrow> bool" where
  "in_class rs c = list_ex (\<lambda>(lo, hi). lo \<le> c \<and> c \<le> hi) rs"

function match :: "regex \<Rightarrow> bool \<Rightarrow> string \<Rightarrow> (string list \<times> string) list" where
  "match Begin b s = (if b then [([], s)] else [])"
| "match End b s = (if s = [] then [([], s)] else [])"
| "match (Lit l) b s = (if HasPrefix s l then [([], drop (length l) s)] else [])"
| "match (Class rs) b s =
     (case s of [] \<Rightarrow> [] | c # cs \<Rightarrow> if in_class rs c then [([], cs)] else [])"
| "match (Seq r1 r2) b s =
     concat (map (\<lambda>(c1, s1). map (\<lambda>(c2, s2). (c1 @ c2, s2))
                    (match r2 (b \<and> length s1 = length s) s1)) (match r1 b s))"
| "match (Alt r1 r2) b s =
     map (\<lambda>(c, s'). (c @ replicate (ngroups r2) [], s')) (match r1 b s) @
     map (\<lambda>(c, s'). (replicate (ngroups r1) [] @ c, s')) (match r2 b s)"
| "match (Plus r) b s =
     concat (map (\<lambda>(c, s'). (if length s' < length s then match (Plus r) False s' else []) @
                              [(c, s')])
               (match r b s))"
| "match (Group r) b s =
     map (\<lambda>(c, s'). (take (length s - length s') s # c, s')) (match r b s)"
  by pat_completeness auto
termination
  by (relation "inv_image (measure size <*lex*> measure length) (\<lambda>(r, b, s). (r, s))") auto

declare match.simps [simp del]

text \<open>
  \<^verbatim>\<open>FindStringSubmatch\<close>: the leftmost position at which the expression matches,
  and there the preferred match; the result holds the text of the whole match followed by the
  submatches, \<open>None\<close> is Go's \<^verbatim>\<open>nil\<close>.
\<close>

definition submatch_at :: "regex \<Rightarrow> string \<Rightarrow> nat \<Rightarrow> string list option" where
  "submatch_at re s i =
     (case match re (i = 0) (drop i s) of
        [] \<Rightarrow> None
      | (c, s') # _ \<Rightarrow> Some (take (length s - i - length s') (drop i s) # c))"

fun first_some :: "('a \<Rightarrow> 'b option) \<Rightarrow> 'a list \<Rightarrow> 'b option" where
  "first_some f [] = None"
| "first_some f (x # xs) = (case f x of Some y \<Rightarrow> Some y | None \<Rightarrow> first_some f xs)"

definition FindStringSubmatch :: "regex \<Rightarrow> string \<Rightarrow> string list option" where
  "FindStringSubmatch re s = first_some (submatch_at re s) [0..<Suc (length s)]"

subsection \<open>os: a hierarchical file system\<close>

text \<open>
  A file system is a finite table from canonical locations (the list of directory names from
  the root) to nodes, with the working directory of the process. Path names are resolved
  component by component as POSIX does: every component, \<^verbatim>\<open>.\<close> and
  \<^verbatim>\<open>..\<close> included, is looked up in a directory that must exist; repeated slashes
  count as one; a trailing slash asks for a directory. A path name with a zero byte is refused
  before the system sees it (\<^verbatim>\<open>EINVAL\<close>); a path name as long as the system's
  \<^verbatim>\<open>PATH_MAX\<close> (which counts the terminating byte) and a component longer than
  its \<^verbatim>\<open>NAME_MAX\<close> are refused with \<^verbatim>\<open>ENAMETOOLONG\<close>. The two limits
  belong to the file system; on Linux they are 4096 and 255. Permissions, symbolic links, quotas
  and hardware failures are outside the model, so the only errors are the ones below.
\<close>

datatype errno = ENOENT | ENOTDIR | EISDIR | EEXIST | ENOTEMPTY | ENAMETOOLONG | EINVAL

datatype os_error = PathError string string errno

fun errno_text :: "errno \<Rightarrow> string" where
  "errno_text ENOENT = ''no such file or directory''"
| "errno_text ENOTDIR = ''not a directory''"
| "errno_text EISDIR = ''is a directory''"
| "errno_text EEXIST = ''file exists''"
| "errno_text ENOTEMPTY = ''directory not empty''"
| "errno_text ENAMETOOLONG = ''file name too long''"
| "errno_text EINVAL = ''invalid argument''"

fun Error_text :: "os_error \<Rightarrow> string" where
  "Error_text (PathError op path e) = op @ '' '' @ path @ '': '' @ errno_text e"

fun IsNotExist :: "os_error \<Rightarrow> bool" where
  "IsNotExist (PathError op path e) = (e = ENOENT)"

datatype node = File bytes | Dir

record filesystem =
  nodes :: "(string list \<times> node) list"
  cwd :: "string list"
  name_max :: nat
  path_max :: nat

definition node_at :: "filesystem \<Rightarrow> string list \<Rightarrow> node option" where
  "node_at fs c = map_of (nodes fs) c"

definition put_node :: "filesystem \<Rightarrow> string list \<Rightarrow> node \<Rightarrow> filesystem" where
  "put_node fs c n = fs\<lparr>nodes := AList.update c n (nodes fs)\<rparr>"

definition del_node :: "filesystem \<Rightarrow> string list \<Rightarrow> filesystem" where
  "del_node fs c = fs\<lparr>nodes := AList.delete c (nodes fs)\<rparr>"

definition dir_entries :: "filesystem \<Rightarrow> string list \<Rightarrow> string list" where
  "dir_entries fs c =
     remdups (map (last \<circ> fst) (filter (\<lambda>(p, n). p \<noteq> [] \<and> butlast p = c) (nodes fs)))"

fun split_path :: "string \<Rightarrow> string \<Rightarrow> string list" where
  "split_path cur [] = (if cur = [] then [] else [cur])"
| "split_path cur (x # xs) =
     (if x = CHR ''/'' then (if cur = [] then [] else [cur]) @ split_path [] xs
      else split_path (cur @ [x]) xs)"

definition components :: "string \<Rightarrow> string list" where
  "components p = split_path [] p"

definition step :: "string list \<Rightarrow> string \<Rightarrow> string list" where
  "step cur c = (if c = ''.'' then cur else if c = ''..'' then butlast cur else cur @ [c])"

fun walk :: "filesystem \<Rightarrow> string list \<Rightarrow> string list \<Rightarrow> errno + string list" where
  "walk fs cur [] = Inr cur"
| "walk fs cur (c # cs) =
     (case node_at fs cur of
        None \<Rightarrow> Inl ENOENT
      | Some (File _) \<Rightarrow> Inl ENOTDIR
      | Some Dir \<Rightarrow>
          if name_max fs < length c then Inl ENAMETOOLONG else walk fs (step cur c) cs)"

definition resolve :: "filesystem \<Rightarrow> string \<Rightarrow> errno + string list" where
  "resolve fs p =
     (if CHR 0x00 \<in> set p then Inl EINVAL
      else if p = [] then Inl ENOENT
      else if path_max fs \<le> length p then Inl ENAMETOOLONG
      else walk fs (if hd p = CHR ''/'' then [] else cwd fs) (components p))"

definition trailing_slash :: "string \<Rightarrow> bool" where
  "trailing_slash p \<longleftrightarrow> p \<noteq> [] \<and> last p = CHR ''/''"

definition Stat :: "filesystem \<Rightarrow> string \<Rightarrow> os_error + node" where
  "Stat fs name =
     (case resolve fs name of
        Inl e \<Rightarrow> Inl (PathError ''stat'' name e)
      | Inr c \<Rightarrow>
          (case node_at fs c of
             None \<Rightarrow> Inl (PathError ''stat'' name ENOENT)
           | Some (File b) \<Rightarrow>
               if trailing_slash name then Inl (PathError ''stat'' name ENOTDIR)
               else Inr (File b)
           | Some Dir \<Rightarrow> Inr Dir))"

definition Mkdir :: "filesystem \<Rightarrow> string \<Rightarrow> os_error + filesystem" where
  "Mkdir fs name =
     (case resolve fs name of
        Inl e \<Rightarrow> Inl (PathError ''mkdir'' name e)
      | Inr c \<Rightarrow>
          (case node_at fs c of
             Some _ \<Rightarrow> Inl (PathError ''mkdir'' name EEXIST)
           | None \<Rightarrow> Inr (put_node fs c Dir)))"

definition WriteFile :: "filesystem \<Rightarrow> string \<Rightarrow> bytes \<Rightarrow> os_error + filesystem" where
  "WriteFile fs name data =
     (case resolve fs name of
        Inl e \<Rightarrow> Inl (PathError ''open'' name e)
      | Inr c \<Rightarrow>
          (case node_at fs c of
             Some Dir \<Rightarrow> Inl (PathError ''open'' name EISDIR)
           | Some (File _) \<Rightarrow>
               if trailing_slash name then Inl (PathError ''open'' name ENOTDIR)
               else Inr (put_node fs c (File data))
           | None \<Rightarrow>
               if trailing_slash name then Inl (PathError ''open'' name EISDIR)
               else Inr (put_node fs c (File data))))"

definition ReadFile :: "filesystem \<Rightarrow> string \<Rightarrow> os_error + bytes" where
  "ReadFile fs name =
     (case resolve fs name of
        Inl e \<Rightarrow> Inl (PathError ''open'' name e)
      | Inr c \<Rightarrow>
          (case node_at fs c of
             None \<Rightarrow> Inl (PathError ''open'' name ENOENT)
           | Some Dir \<Rightarrow> Inl (PathError ''read'' name EISDIR)
           | Some (File b) \<Rightarrow>
               if trailing_slash name then Inl (PathError ''open'' name ENOTDIR)
               else Inr b))"

definition Remove :: "filesystem \<Rightarrow> string \<Rightarrow> os_error + filesystem" where
  "Remove fs name =
     (case resolve fs name of
        Inl e \<Rightarrow> Inl (PathError ''remove'' name e)
      | Inr c \<Rightarrow>
          (case node_at fs c of
             None \<Rightarrow> Inl (PathError ''remove'' name ENOENT)
           | Some (File _) \<Rightarrow>
               if trailing_slash name then Inl (PathError ''remove'' name ENOTDIR)
               else Inr (del_node fs c)
           | Some Dir \<Rightarrow>
               if dir_entries fs c = [] then Inr (del_node fs c)
               else Inl (PathError ''remove'' name ENOTEMPTY)))"

text \<open>
  In a well-formed file system every entry lies in a directory and is named by proper names:
  not empty, without a separator, and neither \<^verbatim>\<open>.\<close> nor \<^verbatim>\<open>..\<close>.
  The operations keep it so.
\<close>

definition proper_name :: "string \<Rightarrow> bool" where
  "proper_name n \<longleftrightarrow> n \<noteq> [] \<and> CHR ''/'' \<notin> set n \<and> n \<noteq> ''.'' \<and> n \<noteq> ''..''"

definition wf :: "filesystem \<Rightarrow> bool" where
  "wf fs \<longleftrightarrow>
     list_all (\<lambda>(p, n). list_all proper_name p \<and>
                        (p = [] \<or> node_at fs (butlast p) = Some Dir)) (nodes fs)"

subsection \<open>path/filepath\<close>

fun join_sep :: "string list \<Rightarrow> string" where
  "join_sep [] = []"
| "join_sep [x] = x"
| "join_sep (x # y # ys) = x @ ''/'' @ join_sep (y # ys)"

definition clean_step :: "bool \<Rightarrow> string list \<Rightarrow> string \<Rightarrow> string list" where
  "clean_step rooted out c =
     (if c = ''.'' then out
      else if c = ''..'' then
        (if out \<noteq> [] \<and> last out \<noteq> ''..'' then butlast out
         else if rooted then out
         else out @ [''..''])
      else out @ [c])"

definition Clean :: "string \<Rightarrow> string" where
  "Clean path =
     (if path = [] then ''.''
      else
        let rooted = (hd path = CHR ''/'');
            out = foldl (clean_step rooted) [] (components path);
            s = (if rooted then ''/'' else []) @ join_sep out
        in if s = [] then ''.'' else s)"

text \<open>\<^verbatim>\<open>Join\<close> of two elements: empty leading elements are dropped, the rest is
  joined by the separator and cleaned.\<close>

definition Join :: "string \<Rightarrow> string \<Rightarrow> string" where
  "Join a b =
     (if a \<noteq> [] then Clean (a @ ''/'' @ b)
      else if b \<noteq> [] then Clean b
      else [])"

definition Split :: "string \<Rightarrow> string \<times> string" where
  "Split path =
     (let file = rev (takeWhile (\<lambda>c. c \<noteq> CHR ''/'') (rev path))
      in (take (length path - length file) path, file))"

definition hasMeta :: "string \<Rightarrow> bool" where
  "hasMeta path = list_ex (\<lambda>c. c \<in> set [CHR ''*'', CHR ''?'', CHR ''['', CHR 0x5C]) path"

definition cleanGlobPath :: "string \<Rightarrow> string" where
  "cleanGlobPath path =
     (if path = [] then ''.'' else if path = ''/'' then path else butlast path)"

text \<open>
  \<^verbatim>\<open>Match\<close> is modelled for the patterns of the shape \<^verbatim>\<open>*literal\<close>, the
  only shape the program builds for a file name: the name must end with the literal and the
  star does not cross a separator.
\<close>

definition star_literal :: "string \<Rightarrow> bool" where
  "star_literal pattern \<longleftrightarrow> pattern \<noteq> [] \<and> hd pattern = CHR ''*'' \<and> \<not> hasMeta (tl pattern)"

definition Match :: "string \<Rightarrow> string \<Rightarrow> bool" where
  "Match pattern name \<longleftrightarrow>
     HasSuffix name (tl pattern) \<and>
     CHR ''/'' \<notin> set (take (length name - length (tl pattern)) name)"

text \<open>
  The unexported \<^verbatim>\<open>glob\<close>: the sorted names of a directory that match the pattern,
  each joined to the directory; every file system error is ignored and gives no match.
\<close>

definition glob :: "filesystem \<Rightarrow> string \<Rightarrow> string \<Rightarrow> string list" where
  "glob fs dir pattern =
     (case Stat fs dir of
        Inl _ \<Rightarrow> []
      | Inr (File _) \<Rightarrow> []
      | Inr Dir \<Rightarrow>
          (case resolve fs dir of
             Inl _ \<Rightarrow> []
           | Inr c \<Rightarrow> map (Join dir) (filter (Match pattern) (sort (dir_entries fs c)))))"

text \<open>
  \<^verbatim>\<open>Glob\<close>. \<open>None\<close> is the error \<^verbatim>\<open>ErrBadPattern\<close>, the only one
  \<^verbatim>\<open>Glob\<close> returns. A pattern with a metacharacter in its directory part, or whose
  file part is not of the shape above, needs the whole pattern language of the library; what
  \<^verbatim>\<open>Glob\<close> returns for such a pattern is left open, as the parameter \<open>general\<close>.
\<close>

definition Glob ::
  "(filesystem \<Rightarrow> string \<Rightarrow> string list option) \<Rightarrow> filesystem \<Rightarrow> string \<Rightarrow> string list option"
where
  "Glob general fs pattern =
     (if \<not> hasMeta pattern then
        (case Stat fs pattern of Inl _ \<Rightarrow> Some [] | Inr _ \<Rightarrow> Some [pattern])
      else
        (case Split pattern of
           (dir, file) \<Rightarrow>
             let dir' = cleanGlobPath dir
             in if \<not> hasMeta dir' \<and> star_literal file then Some (glob fs dir' file)
                else general fs pattern))"

subsection \<open>net/http and html/template, as the program sees them\<close>

text \<open>
  A request carries its method, the path of its URL (\<^verbatim>\<open>r.URL.Path\<close>), the
  parameters of its query string and the form its body holds, if any: a body of type
  \<^verbatim>\<open>application/x-www-form-urlencoded\<close> or one of type
  \<^verbatim>\<open>multipart/form-data\<close>, each given by its parameters in their order.

  \<^verbatim>\<open>r.FormValue\<close> parses the form on its first call and returns the first value of
  the key in \<^verbatim>\<open>r.Form\<close>, the empty string when there is none.
  \<^verbatim>\<open>ParseForm\<close> reads a url-encoded body only when the method is
  \<^verbatim>\<open>POST\<close>, \<^verbatim>\<open>PUT\<close> or \<^verbatim>\<open>PATCH\<close>, and puts its
  parameters before those of the query string; the parameters of a multipart body are appended
  for every method.
\<close>

datatype form_body =
    NoForm
  | UrlEncoded "(string \<times> string) list"
  | Multipart "(string \<times> string) list"

record request =
  Method :: string
  Path :: string
  Query :: "(string \<times> string) list"
  FormBody :: form_body

definition Form :: "request \<Rightarrow> (string \<times> string) list" where
  "Form r =
     (case FormBody r of
        NoForm \<Rightarrow> Query r
      | UrlEncoded ps \<Rightarrow>
          if Method r = ''POST'' \<or> Method r = ''PUT'' \<or> Method r = ''PATCH''
          then ps @ Query r else Query r
      | Multipart ps \<Rightarrow> Query r @ ps)"

definition FormValue :: "request \<Rightarrow> string \<Rightarrow> string" where
  "FormValue r key = (case map_of (Form r) key of None \<Rightarrow> [] | Some v \<Rightarrow> v)"

text \<open>
  The response is the sequence of calls made on the response writer:
  \<^verbatim>\<open>http.NotFound\<close>, \<^verbatim>\<open>http.Error\<close> with its message and code,
  \<^verbatim>\<open>http.Redirect\<close> with its target and code, \<^verbatim>\<open>WriteHeader\<close> with
  its code, and the chunks a template writes. \<open>MuxRedirect\<close> stands for the redirect that
  the multiplexer issues by itself, \<^verbatim>\<open>http.Redirect\<close> with code 301; it records the
  path redirected to, which the multiplexer escapes and completes with the query string of the
  request. The status of a response is decided by the first call. The bytes that the library
  sends for a call are not recorded; they can depend on the method of the request
  (\<^verbatim>\<open>http.Redirect\<close> adds a short body for \<^verbatim>\<open>GET\<close> and
  \<^verbatim>\<open>HEAD\<close>, and no body is sent in answer to \<^verbatim>\<open>HEAD\<close>).
\<close>

datatype http_call =
    NotFound
  | Error string nat
  | Redirect string nat
  | MuxRedirect string
  | WriteHeader nat
  | Write string

type_synonym response = "http_call list"

definition StatusFound :: nat where
  "StatusFound = 302"

definition StatusInternalServerError :: nat where
  "StatusInternalServerError = 500"

definition StatusMovedPermanently :: nat where
  "StatusMovedPermanently = 301"

definition StatusBadRequest :: nat where
  "StatusBadRequest = 400"

fun status_code :: "response \<Rightarrow> nat" where
  "status_code [] = 200"
| "status_code (NotFound # _) = 404"
| "status_code (Error msg code # _) = code"
| "status_code (Redirect url code # _) = code"
| "status_code (MuxRedirect url # _) = 301"
| "status_code (WriteHeader code # _) = code"
| "status_code (Write s # _) = 200"

subsection \<open>The data of \<^verbatim>\<open>wiki.go\<close>\<close>

record pageModel =
  Title :: string
  Body :: bytes

record indexData =
  Items :: "string list"

text \<open>
  What a template is executed on: the \<^verbatim>\<open>interface{}\<close> field
  \<^verbatim>\<open>pageData.Content\<close> holds a page or an index, and the base layout receives the
  anonymous struct of a title and the rendered content.
\<close>

datatype payload =
    PageContent pageModel
  | IndexContent indexData
  | BaseData string string

record pageData =
  Title :: string
  Content :: payload

text \<open>
  The template files are not part of the sources: a template is taken as the function from
  its data to the chunks it writes and the error it ends with, if any; the set
  \<^verbatim>\<open>templates\<close> is a table of them by name. The process-wide values (the
  environment variable \<^verbatim>\<open>STORAGE_PATH\<close>, the parsed templates, and the open part
  of \<^verbatim>\<open>Glob\<close>) are collected in one record.
\<close>

type_synonym template = "payload \<Rightarrow> string list \<times> string option"

record config =
  STORAGE_PATH :: string
  templates :: "string \<Rightarrow> template option"
  Glob_general :: "filesystem \<Rightarrow> string \<Rightarrow> string list option"

definition validPath :: regex where
  "validPath =
     Seq Begin
       (Seq (Alt (Lit ''/'')
                 (Seq (Lit ''/'')
                   (Seq (Group (Alt (Lit ''view'')
                                 (Alt (Lit ''edit'') (Alt (Lit ''save'') (Lit ''delete'')))))
                     (Seq (Lit ''/'')
                          (Group (Plus (Class [(CHR ''a'', CHR ''z''), (CHR ''A'', CHR ''Z''),
                                               (CHR ''0'', CHR ''9'')])))))))
            End)"

subsection \<open>The page repository\<close>

definition save :: "config \<Rightarrow> pageModel \<Rightarrow> filesystem \<Rightarrow> os_error option \<times> filesystem" where
  "save cfg p fs =
     (let filename = STORAGE_PATH cfg @ ''/'' @ pageModel.Title p @ ''.txt'' in
      case (case Stat fs (STORAGE_PATH cfg) of
              Inl err \<Rightarrow> if IsNotExist err then Mkdir fs (STORAGE_PATH cfg) else Inr fs
            | Inr _ \<Rightarrow> Inr fs) of
        Inl err \<Rightarrow> (Some err, fs)
      | Inr fs1 \<Rightarrow>
          (case WriteFile fs1 filename (Body p) of
             Inl err \<Rightarrow> (Some err, fs1)
           | Inr fs2 \<Rightarrow> (None, fs2)))"

definition delete :: "config \<Rightarrow> pageModel \<Rightarrow> filesystem \<Rightarrow> os_error option \<times> filesystem" where
  "delete cfg p fs =
     (let filename = STORAGE_PATH cfg @ ''/'' @ pageModel.Title p @ ''.txt'' in
      case (case Stat fs (STORAGE_PATH cfg) of
              Inl err \<Rightarrow> if IsNotExist err then Mkdir fs (STORAGE_PATH cfg) else Inr fs
            | Inr _ \<Rightarrow> Inr fs) of
        Inl err \<Rightarrow> (Some err, fs)
      | Inr fs1 \<Rightarrow>
          (case Remove fs1 filename of
             Inl err \<Rightarrow> (Some err, fs1)
           | Inr fs2 \<Rightarrow> (None, fs2)))"

definition loadPage :: "config \<Rightarrow> string \<Rightarrow> filesystem \<Rightarrow> os_error + pageModel" where
  "loadPage cfg param fs =
     (let fn = STORAGE_PATH cfg @ ''/'' @ param @ ''.txt'' in
      case ReadFile fs fn of
        Inl err \<Rightarrow> Inl err
      | Inr body \<Rightarrow> Inr \<lparr>pageModel.Title = param, Body = body\<rparr>)"

text \<open>
  The listing that \<^verbatim>\<open>indexHandler\<close> computes before it renders (lines 34 to 43):
  the matches of \<^verbatim>\<open>STORAGE_PATH/*.txt\<close>, each with the storage prefix and the
  extension trimmed. \<open>None\<close> is the error of \<^verbatim>\<open>Glob\<close>.
\<close>

definition list_titles :: "config \<Rightarrow> filesystem \<Rightarrow> string list option" where
  "list_titles cfg fs =
     (let pattern = Join (STORAGE_PATH cfg) ''*.txt'' in
      case Glob (Glob_general cfg) fs pattern of
        None \<Rightarrow> None
      | Some files \<Rightarrow>
          Some (map (\<lambda>file. TrimSuffix (TrimPrefix file (STORAGE_PATH cfg @ ''/'')) ''.txt'')
                  files))"

subsection \<open>Rendering\<close>

definition renderTemplate :: "config \<Rightarrow> pageData \<Rightarrow> string \<Rightarrow> response" where
  "renderTemplate cfg pd tmpl =
     (case (templates cfg ''base.html'', templates cfg (tmpl @ ''.html'')) of
        (Some baseTmpl, Some contentTmpl) \<Rightarrow>
          (case contentTmpl (Content pd) of
             (contentBuf, Some err) \<Rightarrow> [Error err StatusInternalServerError]
           | (contentBuf, None) \<Rightarrow>
               (case baseTmpl (BaseData (pageData.Title pd) (concat contentBuf)) of
                  (out, Some err) \<Rightarrow> map Write out @ [Error err StatusInternalServerError]
                | (out, None) \<Rightarrow> map Write out))
      | _ \<Rightarrow> [Error ''Not found base or content template'' StatusInternalServerError])"

subsection \<open>Handlers and dispatch\<close>

type_synonym handler = "request \<Rightarrow> string \<Rightarrow> filesystem \<Rightarrow> response \<times> filesystem"

definition indexHandler :: "config \<Rightarrow> handler" where
  "indexHandler cfg r param fs =
     (case list_titles cfg fs of
        None \<Rightarrow> ([Error ''syntax error in pattern'' StatusInternalServerError], fs)
      | Some files \<Rightarrow>
          (renderTemplate cfg
             \<lparr>pageData.Title = ''All Pages'', Content = IndexContent \<lparr>Items = files\<rparr>\<rparr>
             ''index'', fs))"

definition viewHandler :: "config \<Rightarrow> handler" where
  "viewHandler cfg r param fs =
     (case loadPage cfg param fs of
        Inl err \<Rightarrow> ([Redirect (''/edit/'' @ param) StatusFound], fs)
      | Inr p \<Rightarrow>
          (renderTemplate cfg
             \<lparr>pageData.Title = ''View '' @ param, Content = PageContent p\<rparr> ''view'', fs))"

definition saveHandler :: "config \<Rightarrow> handler" where
  "saveHandler cfg r param fs =
     (let body = FormValue r ''body'';
          title = FormValue r ''title'';
          p = \<lparr>pageModel.Title = title, Body = body\<rparr>
      in case save cfg p fs of
           (Some err, fs') \<Rightarrow> ([Error (Error_text err) StatusInternalServerError], fs')
         | (None, fs') \<Rightarrow> ([Redirect (''/view/'' @ title) StatusFound], fs'))"

definition deleteHandler :: "config \<Rightarrow> handler" where
  "deleteHandler cfg r param fs =
     (case loadPage cfg param fs of
        Inl err \<Rightarrow> ([Error (Error_text err) StatusInternalServerError], fs)
      | Inr p \<Rightarrow>
          (case delete cfg p fs of
             (Some err, fs') \<Rightarrow> ([Error (Error_text err) StatusInternalServerError], fs')
           | (None, fs') \<Rightarrow> ([Redirect ''/'' StatusFound], fs')))"

definition editHandler :: "config \<Rightarrow> handler" where
  "editHandler cfg r param fs =
     (let p = (case loadPage cfg param fs of
                 Inl err \<Rightarrow> \<lparr>pageModel.Title = param, Body = []\<rparr>
               | Inr p \<Rightarrow> p)
      in (renderTemplate cfg
            \<lparr>pageData.Title = ''Edit '' @ param, Content = PageContent p\<rparr> ''edit'', fs))"

definition makeHandler :: "handler \<Rightarrow> request \<Rightarrow> filesystem \<Rightarrow> response \<times> filesystem" where
  "makeHandler fn r fs =
     (case FindStringSubmatch validPath (Path r) of
        None \<Rightarrow> ([NotFound], fs)
      | Some m \<Rightarrow> fn r (m ! 2) fs)"

text \<open>
  \<^verbatim>\<open>main\<close> registers five patterns with the default multiplexer of
  \<^verbatim>\<open>net/http\<close> and serves with it. Before a handler of the program runs the
  library answers some requests by itself:
  \<^item> the request for \<^verbatim>\<open>*\<close> (the only request whose path is
    \<^verbatim>\<open>*\<close>): the server answers \<^verbatim>\<open>OPTIONS\<close> with an empty response,
    the multiplexer every other method with status 400;
  \<^item> a path that is a registered pattern without its final slash: a redirect to the pattern;
  \<^item> unless the method is \<^verbatim>\<open>CONNECT\<close>, a path that \<^verbatim>\<open>cleanPath\<close>
    changes (an empty path, a missing leading slash, repeated slashes, \<^verbatim>\<open>.\<close> or
    \<^verbatim>\<open>..\<close>): a redirect to the cleaned path.
  Every other request goes to the handler of the longest pattern that is a prefix of its path,
  and to \<^verbatim>\<open>http.NotFound\<close> when there is none.

  From Go 1.22 on the multiplexer cleans and matches the escaped form of the path; that makes a
  difference only for a path in which a slash or a dot was sent percent-encoded, and such
  requests are not told apart here. \<^verbatim>\<open>cleanPath\<close> calls
  \<^verbatim>\<open>path.Clean\<close>, which computes what \<^verbatim>\<open>filepath.Clean\<close> computes
  where the separator is the slash.
\<close>

definition patterns :: "string list" where
  "patterns = [''/'', ''/view/'', ''/edit/'', ''/save/'', ''/delete/'']"

definition cleanPath :: "string \<Rightarrow> string" where
  "cleanPath p0 =
     (if p0 = [] then ''/''
      else
        let p = (if hd p0 \<noteq> CHR ''/'' then ''/'' @ p0 else p0);
            np = Clean p
        in if last p = CHR ''/'' \<and> np \<noteq> ''/'' then
             (if length p = length np + 1 \<and> HasPrefix p np then p else np @ ''/'')
           else np)"

definition shouldRedirect :: "string \<Rightarrow> bool" where
  "shouldRedirect path \<longleftrightarrow>
     path \<notin> set patterns \<and> path \<noteq> [] \<and> path @ ''/'' \<in> set patterns \<and> last path \<noteq> CHR ''/''"

definition net_http_answer :: "request \<Rightarrow> response option" where
  "net_http_answer r =
     (if Path r = ''*'' then
        (if Method r = ''OPTIONS'' then Some [] else Some [WriteHeader StatusBadRequest])
      else if Method r = ''CONNECT'' then
        (if shouldRedirect (Path r) then Some [MuxRedirect (Path r @ ''/'')] else None)
      else
        let path = cleanPath (Path r)
        in if shouldRedirect path then Some [MuxRedirect (path @ ''/'')]
           else if path \<noteq> Path r then Some [MuxRedirect path]
           else None)"

definition mux_handler :: "config \<Rightarrow> request \<Rightarrow> filesystem \<Rightarrow> response \<times> filesystem" where
  "mux_handler cfg r fs =
     (if HasPrefix (Path r) ''/delete/'' then makeHandler (deleteHandler cfg) r fs
      else if HasPrefix (Path r) ''/view/'' then makeHandler (viewHandler cfg) r fs
      else if HasPrefix (Path r) ''/edit/'' then makeHandler (editHandler cfg) r fs
      else if HasPrefix (Path r) ''/save/'' then makeHandler (saveHandler cfg) r fs
      else if HasPrefix (Path r) ''/'' then makeHandler (indexHandler cfg) r fs
      else ([NotFound], fs))"

definition serve :: "config \<Rightarrow> request \<Rightarrow> filesystem \<Rightarrow> response \<times> filesystem" where
  "serve cfg r fs =
     (case net_http_answer r of
        Some resp \<Rightarrow> (resp, fs)
      | None \<Rightarrow> mux_handler cfg r fs)"


subsection \<open>The route grammar, as the specification words it\<close>

text \<open>
  The path is exactly \<^verbatim>\<open>/\<close>, or exactly \<^verbatim>\<open>/op/identifier\<close> where the
  operation is one of the four and the identifier is a non-empty run of ASCII letters and digits.
\<close>

definition route_ops :: "string list" where
  "route_ops = [''view'', ''edit'', ''save'', ''delete'']"

definition alnum :: "char \<Rightarrow> bool" where
  "alnum c \<longleftrightarrow>
     (CHR ''a'' \<le> c \<and> c \<le> CHR ''z'') \<or> (CHR ''A'' \<le> c \<and> c \<le> CHR ''Z'') \<or>
     (CHR ''0'' \<le> c \<and> c \<le> CHR ''9'')"

definition is_identifier :: "string \<Rightarrow> bool" where
  "is_identifier s \<longleftrightarrow> s \<noteq> [] \<and> list_all alnum s"

definition route_grammar :: "string \<Rightarrow> bool" where
  "route_grammar p \<longleftrightarrow>
     p = ''/'' \<or>
     list_ex (\<lambda>op. HasPrefix p (''/'' @ op @ ''/'') \<and> is_identifier (drop (length op + 2) p))
       route_ops"


subsection \<open>The storage path, as the specification words it\<close>

text \<open>\<^verbatim>\<open><storage-root>/<title>.txt\<close>\<close>

definition storage_path_of :: "string \<Rightarrow> string \<Rightarrow> string" where
  "storage_path_of root title = root @ ''/'' @ title @ ''.txt''"

subsection \<open>The listing, as the specification words it\<close>

text \<open>
  The titles of the page files currently in the storage root: the names of the entries of the
  storage directory that carry the extension, without it.
\<close>

definition stored_titles :: "string \<Rightarrow> filesystem \<Rightarrow> string set" where
  "stored_titles root fs =
     {t. \<exists>d. resolve fs root = Inr d \<and> node_at fs d = Some Dir \<and>
              node_at fs (d @ [t @ ''.txt'']) \<noteq> None}"

text \<open>
  A storage root that \<^verbatim>\<open>filepath.Join\<close> leaves as it is: a cleaned path other than
  the root directory and the current directory, without a metacharacter of \<^verbatim>\<open>Glob\<close>.
\<close>

definition clean_root :: "string \<Rightarrow> bool" where
  "clean_root root \<longleftrightarrow>
     root \<noteq> [] \<and> root \<noteq> ''/'' \<and> root \<noteq> ''.'' \<and> Clean root = root \<and> \<not> hasMeta root"

subsection \<open>Concrete instances\<close>

text \<open>
  A small template set, a configuration over it for a given storage root, requests whose
  parameters travel in a url-encoded body, and a file system
  with the limits of Linux that holds the working directory \<^verbatim>\<open>/srv\<close> and nothing
  else.
\<close>

definition ex_base :: template where
  "ex_base d =
     (case d of
        BaseData t c \<Rightarrow> ([''<title>'', t, ''</title>'', c], None)
      | _ \<Rightarrow> ([''<title>''], Some ''can't evaluate field Title''))"

definition ex_page :: template where
  "ex_page d =
     (case d of
        PageContent p \<Rightarrow> ([''<h1>'', pageModel.Title p, ''</h1>'', Body p], None)
      | _ \<Rightarrow> ([''<h1>''], Some ''can't evaluate field Title''))"

definition ex_index :: template where
  "ex_index d =
     (case d of
        IndexContent i \<Rightarrow> (map (\<lambda>t. ''<li>'' @ t @ ''</li>'') (Items i), None)
      | _ \<Rightarrow> ([], Some ''can't evaluate field Items''))"

definition ex_cfg :: "string \<Rightarrow> config" where
  "ex_cfg root =
     \<lparr>STORAGE_PATH = root,
      templates = map_of [(''base.html'', ex_base), (''view.html'', ex_page),
                          (''edit.html'', ex_page), (''index.html'', ex_index)],
      Glob_general = (\<lambda>fs pattern. None)\<rparr>"

definition ex_fs :: filesystem where
  "ex_fs = \<lparr>nodes = [([], Dir), ([''srv''], Dir)], cwd = [''srv''],
            name_max = 255, path_max = 4096\<rparr>"

definition ex_request :: "string \<Rightarrow> string \<Rightarrow> (string \<times> string) list \<Rightarrow> request" where
  "ex_request m p f = \<lparr>Method = m, Path = p, Query = [], FormBody = UrlEncoded f\<rparr>"

text \<open>The same file system after the page \<^verbatim>\<open>test\<close> was saved under
  \<^verbatim>\<open>data\<close>.\<close>

definition ex_fs_page :: filesystem where
  "ex_fs_page =
     \<lparr>nodes = [([], Dir), ([''srv''], Dir), ([''srv'', ''data''], Dir),
               ([''srv'', ''data'', ''test.txt''], File ''hello'')],
      cwd = [''srv''], name_max = 255, path_max = 4096\<rparr>"

text \<open>Two more states of that file system: the storage directory exists and is empty; a
  directory sits where the page file of \<^verbatim>\<open>test\<close> would be.\<close>

definition ex_fs_data :: filesystem where
  "ex_fs_data =
     \<lparr>nodes = [([], Dir), ([''srv''], Dir), ([''srv'', ''data''], Dir)], cwd = [''srv''],
      name_max = 255, path_max = 4096\<rparr>"

definition ex_fs_dir :: filesystem where
  "ex_fs_dir =
     \<lparr>nodes = [([], Dir), ([''srv''], Dir), ([''srv'', ''data''], Dir),
               ([''srv'', ''data'', ''test.txt''], Dir)],
      cwd = [''srv''], name_max = 255, path_max = 4096\<rparr>"

text \<open>And the state after a save whose form title was \<^verbatim>\<open>../evil\<close>.\<close>

definition ex_fs_evil :: filesystem where
  "ex_fs_evil =
     \<lparr>nodes = [([], Dir), ([''srv''], Dir), ([''srv'', ''data''], Dir),
               ([''srv'', ''evil.txt''], File ''hello'')],
      cwd = [''srv''], name_max = 255, path_max = 4096\<rparr>"

text \<open>The state after a save whose form was empty: the page with the empty title and the
  empty body.\<close>

definition ex_fs_blank :: filesystem where
  "ex_fs_blank =
     \<lparr>nodes = [([], Dir), ([''srv''], Dir), ([''srv'', ''data''], Dir),
               ([''srv'', ''data'', ''.txt''], File [])],
      cwd = [''srv''], name_max = 255, path_max = 4096\<rparr>"

text \<open>The states of the storage directory while the pages \<^verbatim>\<open>a\<close>,
  \<^verbatim>\<open>b\<close> and \<^verbatim>\<open>c\<close> are saved and \<^verbatim>\<open>b\<close> is deleted.\<close>

definition ex_fs_pages :: "string list \<Rightarrow> filesystem" where
  "ex_fs_pages ts =
     \<lparr>nodes = [([], Dir), ([''srv''], Dir), ([''srv'', ''data''], Dir)] @
              map (\<lambda>t. ([''srv'', ''data'', t @ ''.txt''], File ''text'')) ts,
      cwd = [''srv''], name_max = 255, path_max = 4096\<rparr>"

section \<open>Properties\<close>

subsection \<open>The matcher\<close>

lemma HasPrefix_iff: "HasPrefix s p \<longleftrightarrow> (\<exists>t. s = p @ t)"
  unfolding HasPrefix_def
  by (metis append_eq_conv_conj append_take_drop_id)

lemma in_match_Begin: "(c, s') \<in> set (match Begin b s) \<longleftrightarrow> b \<and> c = [] \<and> s' = s"
  by (auto simp: match.simps(1))

lemma in_match_End: "(c, s') \<in> set (match End b s) \<longleftrightarrow> c = [] \<and> s = [] \<and> s' = []"
  by (auto simp: match.simps(2))

lemma in_match_Lit: "(c, s') \<in> set (match (Lit l) b s) \<longleftrightarrow> c = [] \<and> s = l @ s'"
  by (auto simp: match.simps(3) HasPrefix_iff)

lemma in_match_Class:
  "(c, s') \<in> set (match (Class rs) b s) \<longleftrightarrow> c = [] \<and> (\<exists>x. in_class rs x \<and> s = x # s')"
  by (auto simp: match.simps(4) split: list.splits)

lemma in_match_Seq:
  "(c, s') \<in> set (match (Seq r1 r2) b s) \<longleftrightarrow>
     (\<exists>c1 s1 c2. (c1, s1) \<in> set (match r1 b s) \<and>
        (c2, s') \<in> set (match r2 (b \<and> length s1 = length s) s1) \<and> c = c1 @ c2)"
  by (force simp add: match.simps(5))

lemma in_match_Alt:
  "(c, s') \<in> set (match (Alt r1 r2) b s) \<longleftrightarrow>
     (\<exists>c1. (c1, s') \<in> set (match r1 b s) \<and> c = c1 @ replicate (ngroups r2) []) \<or>
     (\<exists>c2. (c2, s') \<in> set (match r2 b s) \<and> c = replicate (ngroups r1) [] @ c2)"
  by (auto simp add: match.simps(6))

lemma in_match_Group:
  "(c, s') \<in> set (match (Group r) b s) \<longleftrightarrow>
     (\<exists>c1. (c1, s') \<in> set (match r b s) \<and> c = take (length s - length s') s # c1)"
  by (auto simp add: match.simps(8))

lemma in_match_Plus:
  "(c, s') \<in> set (match (Plus r) b s) \<longleftrightarrow>
     (\<exists>c1 s1. (c1, s1) \<in> set (match r b s) \<and>
        ((c = c1 \<and> s' = s1) \<or>
         (length s1 < length s \<and> (c, s') \<in> set (match (Plus r) False s1))))"
  by (subst match.simps(7)) (auto split: if_splits)

text \<open>One or more characters of a class: the non-empty prefixes made of the class.\<close>

lemma in_match_Plus_Class:
  "(c, s') \<in> set (match (Plus (Class rs)) b s) \<longleftrightarrow>
     c = [] \<and> (\<exists>u. u \<noteq> [] \<and> (\<forall>x \<in> set u. in_class rs x) \<and> s = u @ s')"
proof (induction s arbitrary: b)
  case Nil
  then show ?case by (subst in_match_Plus) (simp add: in_match_Class)
next
  case (Cons a s)
  show ?case
  proof (cases "in_class rs a")
    case False
    then show ?thesis
      by (subst in_match_Plus) (auto simp: in_match_Class Cons_eq_append_conv)
  next
    case True
    have "(c, s') \<in> set (match (Plus (Class rs)) b (a # s)) \<longleftrightarrow>
            (c, s') \<in> set (match (Plus (Class rs)) False s) \<or> (c = [] \<and> s' = s)"
      using True by (subst in_match_Plus) (auto simp: in_match_Class)
    also have "\<dots> \<longleftrightarrow>
        c = [] \<and> (\<exists>u. u \<noteq> [] \<and> (\<forall>x \<in> set u. in_class rs x) \<and> a # s = u @ s')"
      unfolding Cons.IH using True by (auto simp: Cons_eq_append_conv)
    finally show ?thesis .
  qed
qed

subsection \<open>The route grammar\<close>

lemma in_class_alnum:
  "in_class [(CHR ''a'', CHR ''z''), (CHR ''A'', CHR ''Z''), (CHR ''0'', CHR ''9'')] c = alnum c"
  by (simp add: in_class_def alnum_def)

lemma route_grammar_iff:
  "route_grammar p \<longleftrightarrow>
     p = ''/'' \<or>
     (\<exists>op ident. op \<in> set route_ops \<and> is_identifier ident \<and> p = ''/'' @ op @ ''/'' @ ident)"
  unfolding route_grammar_def list_ex_iff HasPrefix_iff
  by (auto simp: Bex_def)

lemma match_validPath_False: "match validPath False s = []"
  by (simp add: validPath_def match.simps(1,5))

lemma in_match_validPath:
  "(c, s') \<in> set (match validPath True p) \<longleftrightarrow>
     s' = [] \<and> ((p = ''/'' \<and> c = [[], []]) \<or>
       (\<exists>op ident. op \<in> set route_ops \<and> is_identifier ident \<and>
           p = ''/'' @ op @ ''/'' @ ident \<and> c = [op, ident]))"
  unfolding validPath_def route_ops_def is_identifier_def list_all_iff
  apply (simp add: in_match_Seq in_match_Alt in_match_Lit in_match_Group in_match_Begin
      in_match_End in_match_Plus_Class in_class_alnum)
  apply (rule iffI)
   apply (elim exE conjE disjE; simp)
  apply auto
  done

lemma first_some_None: "(\<And>x. x \<in> set xs \<Longrightarrow> f x = None) \<Longrightarrow> first_some f xs = None"
  by (induction xs) auto

lemma FindStringSubmatch_validPath:
  "FindStringSubmatch validPath p = submatch_at validPath p 0"
proof -
  have later: "first_some (submatch_at validPath p) [1..<Suc (length p)] = None"
  proof (rule first_some_None)
    fix x assume "x \<in> set [1..<Suc (length p)]"
    then have "x \<noteq> 0" by auto
    then show "submatch_at validPath p x = None"
      by (simp add: submatch_at_def match_validPath_False)
  qed
  have eq: "[0..<Suc (length p)] = 0 # [1..<Suc (length p)]"
    by (simp add: upt_rec)
  show ?thesis
    unfolding FindStringSubmatch_def eq first_some.simps later
    by (cases "submatch_at validPath p 0") simp_all
qed

lemma match_validPath_nonempty:
  "(\<exists>c s'. (c, s') \<in> set (match validPath True p)) \<longleftrightarrow> route_grammar p"
  unfolding in_match_validPath route_grammar_iff by blast

lemma FindStringSubmatch_None:
  "FindStringSubmatch validPath p = None \<longleftrightarrow> \<not> route_grammar p"
proof -
  have "FindStringSubmatch validPath p = None \<longleftrightarrow> match validPath True p = []"
    unfolding FindStringSubmatch_validPath submatch_at_def
    by (auto split: list.splits)
  also have "\<dots> \<longleftrightarrow> \<not> (\<exists>c s'. (c, s') \<in> set (match validPath True p))"
    by (cases "match validPath True p") auto
  finally show ?thesis
    by (simp only: match_validPath_nonempty)
qed

lemma FindStringSubmatch_Some:
  assumes "FindStringSubmatch validPath p = Some m"
  shows "(p = ''/'' \<and> m = [''/'', [], []]) \<or>
         (\<exists>op ident. op \<in> set route_ops \<and> is_identifier ident \<and>
            p = ''/'' @ op @ ''/'' @ ident \<and> m = [p, op, ident])"
proof -
  from assms obtain c s' rest where m: "match validPath True p = (c, s') # rest"
    and m': "m = take (length p - length s') p # c"
    unfolding FindStringSubmatch_validPath submatch_at_def
    by (auto split: list.splits)
  have "(c, s') \<in> set (match validPath True p)"
    by (simp add: m)
  then show ?thesis
    unfolding in_match_validPath using m' by auto
qed

lemma route_decomposition_unique:
  assumes "op \<in> set route_ops" "op' \<in> set route_ops"
    and "''/'' @ op @ ''/'' @ ident = ''/'' @ op' @ ''/'' @ ident'"
  shows "op = op' \<and> ident = ident'"
  using assms unfolding route_ops_def by auto

lemma FindStringSubmatch_route:
  assumes "op \<in> set route_ops" "is_identifier ident"
  shows "FindStringSubmatch validPath (''/'' @ op @ ''/'' @ ident) =
           Some [''/'' @ op @ ''/'' @ ident, op, ident]"
proof -
  let ?p = "''/'' @ op @ ''/'' @ ident"
  have "route_grammar ?p"
    unfolding route_grammar_iff using assms by blast
  then obtain m where m: "FindStringSubmatch validPath ?p = Some m"
    using FindStringSubmatch_None[of ?p] by auto
  from FindStringSubmatch_Some[OF m] show ?thesis
  proof
    assume "?p = ''/'' \<and> m = [''/'', [], []]"
    then show ?thesis by simp
  next
    assume "\<exists>op' ident'. op' \<in> set route_ops \<and> is_identifier ident' \<and>
              ?p = ''/'' @ op' @ ''/'' @ ident' \<and> m = [?p, op', ident']"
    then obtain op' ident' where *: "op' \<in> set route_ops"
      "?p = ''/'' @ op' @ ''/'' @ ident'" "m = [?p, op', ident']"
      by blast
    from route_decomposition_unique[OF assms(1) *(1) *(2)] *(3) m
    show ?thesis by simp
  qed
qed

lemma FindStringSubmatch_root: "FindStringSubmatch validPath ''/'' = Some [''/'', [], []]"
proof -
  have "route_grammar ''/''"
    by (simp add: route_grammar_def)
  then obtain m where m: "FindStringSubmatch validPath ''/'' = Some m"
    using FindStringSubmatch_None[of "''/''"] by auto
  from FindStringSubmatch_Some[OF m] m show ?thesis
    by auto
qed

subsection \<open>The file system\<close>

lemma node_at_put: "node_at (put_node fs c n) d = (if d = c then Some n else node_at fs d)"
  by (simp add: node_at_def put_node_def update_conv')

lemma node_at_del: "node_at (del_node fs c) d = (if d = c then None else node_at fs d)"
  by (simp add: node_at_def del_node_def delete_conv')

lemma cwd_put [simp]:
  "cwd (put_node fs c n) = cwd fs"
  "name_max (put_node fs c n) = name_max fs"
  "path_max (put_node fs c n) = path_max fs"
  by (simp_all add: put_node_def)

lemma cwd_del [simp]:
  "cwd (del_node fs c) = cwd fs"
  "name_max (del_node fs c) = name_max fs"
  "path_max (del_node fs c) = path_max fs"
  by (simp_all add: del_node_def)

lemma split_path_append:
  "split_path cur (a @ CHR ''/'' # b) = split_path cur a @ split_path [] b"
  by (induction a arbitrary: cur) auto

lemma split_path_no_slash:
  "CHR ''/'' \<notin> set s \<Longrightarrow> split_path cur s = (if cur @ s = [] then [] else [cur @ s])"
  by (induction s arbitrary: cur) auto

lemma split_path_snoc_nonempty: "x \<noteq> CHR ''/'' \<Longrightarrow> split_path cur (s @ [x]) \<noteq> []"
  by (induction s arbitrary: cur) auto

lemma components_append: "components (a @ CHR ''/'' # b) = components a @ components b"
  by (simp add: components_def split_path_append)

lemma components_name: "CHR ''/'' \<notin> set s \<Longrightarrow> s \<noteq> [] \<Longrightarrow> components s = [s]"
  by (simp add: components_def split_path_no_slash)

lemma components_txt_nonempty: "components (t @ ''.txt'') \<noteq> []"
  using split_path_snoc_nonempty[of "CHR ''t''" "[]" "t @ ''.tx''"]
  by (simp add: components_def)

lemma walk_append:
  "walk fs cur (xs @ ys) = (case walk fs cur xs of Inl e \<Rightarrow> Inl e | Inr c \<Rightarrow> walk fs c ys)"
  by (induction xs arbitrary: cur) (auto split: option.splits node.splits)

lemma walk_mono:
  "walk fs cur cs = Inr c \<Longrightarrow> name_max fs' = name_max fs \<Longrightarrow>
   (\<And>d. node_at fs d = Some Dir \<Longrightarrow> node_at fs' d = Some Dir)
     \<Longrightarrow> walk fs' cur cs = Inr c"
  by (induction cs arbitrary: cur) (auto split: option.splits node.splits if_splits)

lemma resolve_mono:
  "resolve fs p = Inr c \<Longrightarrow> cwd fs' = cwd fs \<Longrightarrow> name_max fs' = name_max fs \<Longrightarrow>
   path_max fs' = path_max fs \<Longrightarrow>
   (\<And>d. node_at fs d = Some Dir \<Longrightarrow> node_at fs' d = Some Dir) \<Longrightarrow> resolve fs' p = Inr c"
  unfolding resolve_def by (auto split: if_splits intro: walk_mono)

lemma resolve_put_file:
  "resolve fs p = Inr c \<Longrightarrow> node_at fs d \<noteq> Some Dir \<Longrightarrow> resolve (put_node fs d n) p = Inr c"
  by (erule resolve_mono) (auto simp: node_at_put)

lemma resolve_del_file:
  "resolve fs p = Inr c \<Longrightarrow> node_at fs d \<noteq> Some Dir \<Longrightarrow> resolve (del_node fs d) p = Inr c"
  by (erule resolve_mono) (auto simp: node_at_del)

lemma WriteFile_cases:
  assumes "WriteFile fs p b = Inr fs'"
  obtains c where "resolve fs p = Inr c" "node_at fs c \<noteq> Some Dir" "\<not> trailing_slash p"
    "fs' = put_node fs c (File b)"
  using assms
  by (auto simp: WriteFile_def split: sum.splits option.splits node.splits if_splits)


lemma resolve_Inr_iff:
  "resolve fs p = Inr c \<longleftrightarrow>
     CHR 0x00 \<notin> set p \<and> p \<noteq> [] \<and> length p < path_max fs \<and>
     walk fs (if hd p = CHR ''/'' then [] else cwd fs) (components p) = Inr c"
  by (simp add: resolve_def not_le)

text \<open>A path below a root resolves only if the root resolves to a directory.\<close>

lemma resolve_below:
  assumes "resolve fs (root @ CHR ''/'' # rest) = Inr c" "root \<noteq> []" "components rest \<noteq> []"
  obtains d where "resolve fs root = Inr d" "node_at fs d = Some Dir"
    "walk fs d (components rest) = Inr c"
proof -
  let ?start = "if hd root = CHR ''/'' then [] else cwd fs"
  from assms(1,2) have w: "walk fs ?start (components root @ components rest) = Inr c"
    and ok: "CHR 0x00 \<notin> set root" "length root < path_max fs"
    by (simp_all add: resolve_Inr_iff components_append)
  then obtain d where d: "walk fs ?start (components root) = Inr d"
    "walk fs d (components rest) = Inr c"
    by (auto simp: walk_append split: sum.splits)
  from assms(3) obtain x xs where "components rest = x # xs"
    by (cases "components rest") auto
  with d(2) have "node_at fs d = Some Dir"
    by (auto split: option.splits node.splits)
  moreover have "resolve fs root = Inr d"
    using d(1) assms(2) ok by (simp add: resolve_Inr_iff)
  ultimately show ?thesis
    using d(2) that by blast
qed

text \<open>The path of a page resolves to the entry of that name in the storage directory.\<close>

lemma resolve_page:
  assumes "resolve fs root = Inr d" "resolve fs (root @ ''/'' @ t @ ''.txt'') = Inr c"
    "CHR ''/'' \<notin> set t"
  shows "c = d @ [t @ ''.txt'']"
proof -
  let ?start = "if hd root = CHR ''/'' then [] else cwd fs"
  from assms(1) have ne: "root \<noteq> []" and wd: "walk fs ?start (components root) = Inr d"
    by (simp_all add: resolve_Inr_iff)
  have comps: "components (t @ ''.txt'') = [t @ ''.txt'']"
    using assms(3) by (intro components_name) auto
  from assms(2) ne have "walk fs ?start (components root @ [t @ ''.txt'']) = Inr c"
    by (simp add: resolve_Inr_iff components_append comps)
  with wd have "walk fs d [t @ ''.txt''] = Inr c"
    by (simp add: walk_append)
  then have "c = step d (t @ ''.txt'')"
    by (auto split: option.splits node.splits if_splits)
  then show ?thesis
    by (auto simp: step_def)
qed

lemma wf_parent: "wf fs \<Longrightarrow> node_at fs (c @ [n]) = Some x \<Longrightarrow> node_at fs c = Some Dir"
proof -
  assume w: "wf fs" and x: "node_at fs (c @ [n]) = Some x"
  from x have "(c @ [n], x) \<in> set (nodes fs)"
    by (simp add: node_at_def map_of_SomeD)
  with w have "c @ [n] = [] \<or> node_at fs (butlast (c @ [n])) = Some Dir"
    unfolding wf_def list_all_iff by fastforce
  then show ?thesis by simp
qed

lemma trailing_slash_page [simp]: "\<not> trailing_slash (root @ CHR ''/'' # t @ ''.txt'')"
  by (simp add: trailing_slash_def)

subsection \<open>Lexical paths\<close>

lemma join_sep_snoc: "out \<noteq> [] \<Longrightarrow> join_sep (out @ [n]) = join_sep out @ ''/'' @ n"
  by (induction out rule: join_sep.induct) auto

lemma clean_step_name: "proper_name n \<Longrightarrow> clean_step rooted out n = out @ [n]"
  by (simp add: clean_step_def proper_name_def)

lemma Clean_append_name:
  assumes "root \<noteq> []" "root \<noteq> ''/''" "root \<noteq> ''.''" "Clean root = root" "proper_name n"
  shows "Clean (root @ CHR ''/'' # n) = root @ CHR ''/'' # n"
proof -
  let ?rooted = "hd root = CHR ''/''"
  let ?pre = "if ?rooted then ''/'' else []"
  let ?out = "foldl (clean_step ?rooted) [] (components root)"
  have n: "components n = [n]"
    using assms(5) by (intro components_name) (auto simp: proper_name_def)
  have root: "root = (if ?pre @ join_sep ?out = [] then ''.'' else ?pre @ join_sep ?out)"
    using assms(1,4) by (simp add: Clean_def Let_def)
  have out: "?out \<noteq> []"
  proof
    assume "?out = []"
    with root assms(2,3) show False by (auto split: if_splits)
  qed
  from root assms(3) have root': "root = ?pre @ join_sep ?out"
    by (auto split: if_splits)
  have s: "?pre @ join_sep (?out @ [n]) = (?pre @ join_sep ?out) @ CHR ''/'' # n"
    by (simp add: join_sep_snoc[OF out])
  have "Clean (root @ CHR ''/'' # n) =
          (if ?pre @ join_sep (?out @ [n]) = [] then ''.'' else ?pre @ join_sep (?out @ [n]))"
    using assms(1)
    by (simp add: Clean_def Let_def components_append n clean_step_name[OF assms(5)])
  also have "\<dots> = (?pre @ join_sep ?out) @ CHR ''/'' # n"
    unfolding s by simp
  finally show ?thesis
    using root' by simp
qed

subsection \<open>Dispatch\<close>

lemma alnum_not_slash: "alnum c \<Longrightarrow> c \<noteq> CHR ''/''"
  by (auto simp: alnum_def less_eq_char_def)

lemma is_identifier_no_slash: "is_identifier s \<Longrightarrow> CHR ''/'' \<notin> set s"
  by (auto simp: is_identifier_def list_all_iff dest: alnum_not_slash)

lemma Split_last_segment:
  "CHR ''/'' \<notin> set b \<Longrightarrow> Split (a @ CHR ''/'' # b) = (a @ ''/'', b)"
proof -
  assume b: "CHR ''/'' \<notin> set b"
  have "takeWhile (\<lambda>c. c \<noteq> CHR ''/'') (rev b @ CHR ''/'' # rev a) = rev b"
    using b by (subst takeWhile_append2) auto
  then show ?thesis
    by (simp add: Split_def Let_def)
qed

lemma route_grammar_last_segment:
  assumes "op \<in> set route_ops" "is_identifier ident"
  shows "snd (Split (''/'' @ op @ ''/'' @ ident)) = ident"
  using Split_last_segment[OF is_identifier_no_slash[OF assms(2)], of "''/'' @ op"]
  by simp

lemma makeHandler_route:
  "makeHandler fn r fs =
     (if route_grammar (Path r) then fn r (snd (Split (Path r))) fs else ([NotFound], fs))"
proof (cases "FindStringSubmatch validPath (Path r)")
  case None
  then show ?thesis
    using FindStringSubmatch_None[of "Path r"] by (simp add: makeHandler_def)
next
  case (Some m)
  then have rg: "route_grammar (Path r)"
    using FindStringSubmatch_None[of "Path r"] by simp
  from FindStringSubmatch_Some[OF Some] have "m ! 2 = snd (Split (Path r))"
  proof
    assume "Path r = ''/'' \<and> m = [''/'', [], []]"
    then show ?thesis by (simp add: Split_def)
  next
    assume "\<exists>op ident. op \<in> set route_ops \<and> is_identifier ident \<and>
       Path r = ''/'' @ op @ ''/'' @ ident \<and> m = [Path r, op, ident]"
    then obtain op ident where *: "op \<in> set route_ops" "is_identifier ident"
      "Path r = ''/'' @ op @ ''/'' @ ident" "m = [Path r, op, ident]"
      by blast
    show ?thesis
      using route_grammar_last_segment[OF *(1,2)] *(3,4) by simp
  qed
  then show ?thesis
    using Some rg by (simp add: makeHandler_def)
qed

lemma is_identifier_proper: "is_identifier t \<Longrightarrow> proper_name t"
proof -
  assume t: "is_identifier t"
  then obtain c cs where cs: "t = c # cs" "alnum c"
    by (cases t) (auto simp: is_identifier_def)
  have "c \<noteq> CHR ''.''"
    using cs(2) by (auto simp: alnum_def less_eq_char_def)
  then have "t \<noteq> ''.''" "t \<noteq> ''..''"
    using cs(1) by auto
  then show ?thesis
    using t is_identifier_no_slash[OF t] by (auto simp: proper_name_def is_identifier_def)
qed

lemma is_identifier_last: "is_identifier t \<Longrightarrow> last t \<noteq> CHR ''/''"
proof
  assume t: "is_identifier t" and l: "last t = CHR ''/''"
  from t have "t \<noteq> []" by (simp add: is_identifier_def)
  then have "last t \<in> set t" by (rule last_in_set)
  with l is_identifier_no_slash[OF t] show False by simp
qed

lemma Clean_op: "op \<in> set route_ops \<Longrightarrow> Clean (''/'' @ op) = ''/'' @ op"
  unfolding route_ops_def by (elim disjE | simp only: set_simps insert_iff empty_iff | code_simp)+

lemma Clean_route:
  assumes "op \<in> set route_ops" "is_identifier ident"
  shows "Clean (''/'' @ op @ ''/'' @ ident) = ''/'' @ op @ ''/'' @ ident"
proof -
  have "Clean ((''/'' @ op) @ CHR ''/'' # ident) = (''/'' @ op) @ CHR ''/'' # ident"
    using assms(1) Clean_op[OF assms(1)] is_identifier_proper[OF assms(2)]
    by (intro Clean_append_name) (auto simp: route_ops_def)
  then show ?thesis by simp
qed

lemma cleanPath_route: "route_grammar p \<Longrightarrow> cleanPath p = p"
proof -
  assume "route_grammar p"
  then consider "p = ''/''"
    | op ident where "op \<in> set route_ops" "is_identifier ident" "p = ''/'' @ op @ ''/'' @ ident"
    unfolding route_grammar_iff by blast
  then show ?thesis
  proof cases
    case 1
    have "cleanPath ''/'' = ''/''" by code_simp
    with 1 show ?thesis by simp
  next
    case 2
    have "last p \<noteq> CHR ''/''"
      using is_identifier_last[OF 2(2)] 2(2) by (simp add: 2(3) is_identifier_def)
    then show ?thesis
      using Clean_route[OF 2(1,2)] by (simp add: cleanPath_def 2(3) Let_def)
  qed
qed

lemma shouldRedirect_route: "route_grammar p \<Longrightarrow> \<not> shouldRedirect p"
  unfolding route_grammar_iff shouldRedirect_def patterns_def route_ops_def is_identifier_def
  by auto

lemma net_http_answer_route: "route_grammar (Path r) \<Longrightarrow> net_http_answer r = None"
proof -
  assume g: "route_grammar (Path r)"
  have "Path r \<noteq> ''*''"
    using g unfolding route_grammar_iff by auto
  then show ?thesis
    using cleanPath_route[OF g] shouldRedirect_route[OF g] by (simp add: net_http_answer_def)
qed

lemma serve_route: "route_grammar (Path r) \<Longrightarrow> serve cfg r fs = mux_handler cfg r fs"
  by (simp add: serve_def net_http_answer_route)

lemma mux_handler_not_route:
  "\<not> route_grammar (Path r) \<Longrightarrow> mux_handler cfg r fs = ([NotFound], fs)"
  by (simp add: mux_handler_def makeHandler_route)

lemma serve_not_route:
  "\<not> route_grammar (Path r) \<Longrightarrow>
     serve cfg r fs =
       (case net_http_answer r of Some resp \<Rightarrow> (resp, fs) | None \<Rightarrow> ([NotFound], fs))"
  by (simp add: serve_def mux_handler_not_route split: option.splits)

text \<open>
  Claim C2, as amended. A handler wrapped by \<^verbatim>\<open>makeHandler\<close> runs exactly when
  the request path is in the route grammar, that is, the path is \<^verbatim>\<open>/\<close> or
  \<^verbatim>\<open>/op/identifier\<close> with one of the four operations and a non-empty
  identifier of letters and digits, matched from the first to the last character; the handler
  then receives the last segment of the path. For every other path
  \<^verbatim>\<open>makeHandler\<close> answers \<^verbatim>\<open>http.NotFound\<close> whatever the handler is and
  leaves the file system untouched. At the dispatch of \<^verbatim>\<open>main\<close> a path outside the
  grammar gets that 404 or, where the library answers before \<^verbatim>\<open>makeHandler\<close> is
  reached, the answer of the library (the redirect of the multiplexer for a path that is not
  clean or lacks the final slash of a pattern); in no case does a handler of the program run or
  is the file system read or changed. A path of the grammar always reaches its handler. The
  two paths the specification names are outside the grammar; the one with a space gets the 404.
\<close>

theorem route_gate:
  "makeHandler fn r fs =
     (if route_grammar (Path r) then fn r (snd (Split (Path r))) fs else ([NotFound], fs)) \<and>
   (\<not> route_grammar (Path r) \<longrightarrow>
      serve cfg r fs =
        (case net_http_answer r of Some resp \<Rightarrow> (resp, fs) | None \<Rightarrow> ([NotFound], fs))) \<and>
   (route_grammar (Path r) \<longrightarrow>
      net_http_answer r = None \<and> serve cfg r fs = mux_handler cfg r fs) \<and>
   (route_grammar (Path r) \<longleftrightarrow>
      Path r = ''/'' \<or>
      (\<exists>op ident. op \<in> set route_ops \<and> ident \<noteq> [] \<and> (\<forall>c \<in> set ident. alnum c) \<and>
         Path r = ''/'' @ op @ ''/'' @ ident)) \<and>
   \<not> route_grammar ''/view/../../etc/passwd'' \<and> \<not> route_grammar ''/view/foo bar'' \<and>
   (Path r = ''/view/foo bar'' \<longrightarrow> serve cfg r fs = ([NotFound], fs))"
proof (intro conjI)
  show "makeHandler fn r fs =
     (if route_grammar (Path r) then fn r (snd (Split (Path r))) fs else ([NotFound], fs))"
    by (rule makeHandler_route)
  show "\<not> route_grammar (Path r) \<longrightarrow>
      serve cfg r fs =
        (case net_http_answer r of Some resp \<Rightarrow> (resp, fs) | None \<Rightarrow> ([NotFound], fs))"
    by (simp add: serve_not_route)
  show "route_grammar (Path r) \<longrightarrow>
      net_http_answer r = None \<and> serve cfg r fs = mux_handler cfg r fs"
    by (simp add: net_http_answer_route serve_route)
  show "route_grammar (Path r) \<longleftrightarrow>
      Path r = ''/'' \<or>
      (\<exists>op ident. op \<in> set route_ops \<and> ident \<noteq> [] \<and> (\<forall>c \<in> set ident. alnum c) \<and>
         Path r = ''/'' @ op @ ''/'' @ ident)"
    by (simp add: route_grammar_iff is_identifier_def list_all_iff)
  show no1: "\<not> route_grammar ''/view/../../etc/passwd''"
    by code_simp
  show no2: "\<not> route_grammar ''/view/foo bar''"
    by code_simp
  show "Path r = ''/view/foo bar'' \<longrightarrow> serve cfg r fs = ([NotFound], fs)"
  proof
    assume p: "Path r = ''/view/foo bar''"
    have c: "cleanPath ''/view/foo bar'' = ''/view/foo bar''"
      by code_simp
    have s: "\<not> shouldRedirect ''/view/foo bar''"
      by code_simp
    have "net_http_answer r = None"
      using p c s by (simp add: net_http_answer_def)
    then show "serve cfg r fs = ([NotFound], fs)"
      using no2 p by (simp add: serve_not_route)
  qed
qed

theorem route_gate_witness:
  "makeHandler (saveHandler (ex_cfg ''data'')) (ex_request ''POST'' ''/save/foo bar'' []) ex_fs =
     ([NotFound], ex_fs) \<and>
   serve (ex_cfg ''data'') (ex_request ''POST'' ''/view/foo bar'' []) ex_fs = ([NotFound], ex_fs) \<and>
   makeHandler (viewHandler (ex_cfg ''data'')) (ex_request ''GET'' ''/view/Foo1'' []) ex_fs =
     viewHandler (ex_cfg ''data'') (ex_request ''GET'' ''/view/Foo1'' []) ''Foo1'' ex_fs"
proof -
  have no: "\<not> route_grammar (Path (ex_request ''POST'' ''/save/foo bar'' []))"
    by (simp add: ex_request_def route_grammar_def route_ops_def HasPrefix_def is_identifier_def
        alnum_def less_eq_char_def)
  have p: "Path (ex_request ''POST'' ''/view/foo bar'' []) = ''/view/foo bar''"
    by (simp add: ex_request_def)
  have yes: "route_grammar (Path (ex_request ''GET'' ''/view/Foo1'' []))"
    by (simp add: ex_request_def route_grammar_def route_ops_def HasPrefix_def is_identifier_def
        alnum_def less_eq_char_def)
  have seg: "snd (Split (Path (ex_request ''GET'' ''/view/Foo1'' []))) = ''Foo1''"
    by (simp add: ex_request_def Split_def)
  have a: "makeHandler (saveHandler (ex_cfg ''data'')) (ex_request ''POST'' ''/save/foo bar'' [])
      ex_fs = ([NotFound], ex_fs)"
    using route_gate[where fn = "saveHandler (ex_cfg ''data'')"
        and r = "ex_request ''POST'' ''/save/foo bar'' []" and fs = ex_fs
        and cfg = "ex_cfg ''data''", THEN conjunct1] no
    by simp
  have b: "serve (ex_cfg ''data'') (ex_request ''POST'' ''/view/foo bar'' []) ex_fs =
      ([NotFound], ex_fs)"
    using route_gate[where fn = "saveHandler (ex_cfg ''data'')"
        and r = "ex_request ''POST'' ''/view/foo bar'' []" and fs = ex_fs
        and cfg = "ex_cfg ''data''"] p
    by blast
  have c: "makeHandler (viewHandler (ex_cfg ''data'')) (ex_request ''GET'' ''/view/Foo1'' [])
      ex_fs =
      viewHandler (ex_cfg ''data'') (ex_request ''GET'' ''/view/Foo1'' []) ''Foo1'' ex_fs"
    using route_gate[where fn = "viewHandler (ex_cfg ''data'')"
        and r = "ex_request ''GET'' ''/view/Foo1'' []" and fs = ex_fs
        and cfg = "ex_cfg ''data''", THEN conjunct1] yes seg
    by simp
  from a b c show ?thesis by simp
qed

text \<open>
  The claim as it was stated fails at the dispatch of \<^verbatim>\<open>main\<close>: the path
  \<^verbatim>\<open>/view/../../etc/passwd\<close> is outside the grammar, and the answer is not a 404 but
  the redirect of the multiplexer to the cleaned path \<^verbatim>\<open>/etc/passwd\<close>, status 301;
  likewise \<^verbatim>\<open>/view\<close> is redirected to \<^verbatim>\<open>/view/\<close>. The file system is
  not touched.
\<close>

theorem route_gate_counterexample:
  "\<not> route_grammar ''/view/../../etc/passwd'' \<and>
   serve (ex_cfg ''data'') (ex_request ''GET'' ''/view/../../etc/passwd'' []) ex_fs_page =
     ([MuxRedirect ''/etc/passwd''], ex_fs_page) \<and>
   status_code [MuxRedirect ''/etc/passwd''] \<noteq> 404 \<and>
   serve (ex_cfg ''data'') (ex_request ''GET'' ''/view'' []) ex_fs_page =
     ([MuxRedirect ''/view/''], ex_fs_page)"
  by code_simp

subsection \<open>The page repository\<close>

lemma save_cases:
  assumes "save cfg p fs = (None, fs')"
  obtains fs1 where
    "fs1 = fs \<or> Mkdir fs (STORAGE_PATH cfg) = Inr fs1"
    "WriteFile fs1 (STORAGE_PATH cfg @ ''/'' @ pageModel.Title p @ ''.txt'') (Body p) = Inr fs'"
  using assms unfolding save_def Let_def
  by (auto split: sum.splits if_splits)


lemma Stat_Dir_iff:
  "Stat fs p = Inr Dir \<longleftrightarrow> (\<exists>d. resolve fs p = Inr d \<and> node_at fs d = Some Dir)"
  by (auto simp: Stat_def split: sum.splits option.splits node.splits)

lemma save_root_nonempty:
  assumes "save cfg p fs = (None, fs')"
  shows "STORAGE_PATH cfg \<noteq> []"
proof
  assume "STORAGE_PATH cfg = []"
  then show False
    using assms by (simp add: save_def Stat_def Mkdir_def resolve_def)
qed


lemma is_identifier_test: "is_identifier ''test''"
  by (simp add: is_identifier_def alnum_def less_eq_char_def)


lemma ex_fs_wf: "wf ex_fs"
  by code_simp

lemma ex_fs_Stat_data: "Stat ex_fs ''data'' = Inl (PathError ''stat'' ''data'' ENOENT)"
  by code_simp

lemma ex_save_test:
  "save (ex_cfg ''data'') \<lparr>pageModel.Title = ''test'', Body = ''hello''\<rparr> ex_fs =
     (None, ex_fs_page)"
  by code_simp



lemma delete_after_save_lemma:
  assumes "save cfg \<lparr>pageModel.Title = t, Body = b\<rparr> fs = (None, fs1)"
  shows "\<exists>fs2. delete cfg \<lparr>pageModel.Title = t, Body = b'\<rparr> fs1 = (None, fs2) \<and>
           loadPage cfg t fs2 =
             Inl (PathError ''open'' (STORAGE_PATH cfg @ ''/'' @ t @ ''.txt'') ENOENT)"
proof -
  let ?root = "STORAGE_PATH cfg"
  let ?file = "?root @ ''/'' @ t @ ''.txt''"
  from assms obtain fs0 where "WriteFile fs0 ?file b = Inr fs1"
    by (rule save_cases) simp
  then obtain c where c: "resolve fs0 ?file = Inr c" "node_at fs0 c \<noteq> Some Dir"
    "fs1 = put_node fs0 c (File b)"
    by (rule WriteFile_cases)
  have r1: "resolve fs1 ?file = Inr c"
    unfolding c(3) using c(1,2) by (rule resolve_put_file)
  have n1: "node_at fs1 c = Some (File b)"
    by (simp add: c(3) node_at_put)
  have ne: "?root \<noteq> []"
    using assms by (rule save_root_nonempty)
  from r1 ne components_txt_nonempty[of t]
  obtain d where d: "resolve fs1 ?root = Inr d" "node_at fs1 d = Some Dir"
    by (auto elim: resolve_below[of fs1 ?root "t @ ''.txt''" c])
  then have st: "Stat fs1 ?root = Inr Dir"
    by (auto simp: Stat_Dir_iff)
  let ?fs2 = "del_node fs1 c"
  have rm: "Remove fs1 ?file = Inr ?fs2"
    using r1 n1 by (simp add: Remove_def)
  have "resolve ?fs2 ?file = Inr c"
    using r1 by (rule resolve_del_file) (simp add: n1)
  then have "ReadFile ?fs2 ?file = Inl (PathError ''open'' ?file ENOENT)"
    by (simp add: ReadFile_def node_at_del)
  then show ?thesis
    using st rm by (simp add: delete_def loadPage_def)
qed

text \<open>
  Claim C6. After a \<^verbatim>\<open>save\<close> of a title that returned without error, the
  \<^verbatim>\<open>delete\<close> of that title succeeds, and a following \<^verbatim>\<open>loadPage\<close>
  fails with an error that \<^verbatim>\<open>os.IsNotExist\<close> recognises: the file is not found.
\<close>

theorem delete_after_save:
  "save cfg \<lparr>pageModel.Title = t, Body = b\<rparr> fs = (None, fs1) \<Longrightarrow>
     \<exists>fs2 e. delete cfg \<lparr>pageModel.Title = t, Body = b'\<rparr> fs1 = (None, fs2) \<and>
       loadPage cfg t fs2 = Inl e \<and> IsNotExist e"
  using delete_after_save_lemma[of cfg t b fs fs1 b'] by auto

theorem delete_after_save_witness:
  "\<exists>fs2 e. delete (ex_cfg ''data'') \<lparr>pageModel.Title = ''test'', Body = []\<rparr> ex_fs_page =
       (None, fs2) \<and>
     loadPage (ex_cfg ''data'') ''test'' fs2 = Inl e \<and> IsNotExist e"
  by (rule delete_after_save[OF ex_save_test])

lemma resolve_page_location:
  assumes "resolve fs (root @ CHR ''/'' # t @ ''.txt'') = Inr c" "CHR ''/'' \<notin> set t"
  shows "\<exists>d. c = d @ [t @ ''.txt'']"
proof -
  let ?start = "if hd (root @ CHR ''/'' # t @ ''.txt'') = CHR ''/'' then [] else cwd fs"
  have comps: "components (t @ ''.txt'') = [t @ ''.txt'']"
    using assms(2) by (intro components_name) auto
  from assms(1) have "walk fs ?start (components root @ [t @ ''.txt'']) = Inr c"
    by (simp add: resolve_Inr_iff components_append comps)
  then obtain d where "walk fs d [t @ ''.txt''] = Inr c"
    by (auto simp: walk_append split: sum.splits)
  then have "c = step d (t @ ''.txt'')"
    by (auto split: option.splits node.splits if_splits)
  then show ?thesis
    by (auto simp: step_def)
qed

text \<open>
  Claim C9. \<^verbatim>\<open>loadPage\<close>, \<^verbatim>\<open>save\<close> and \<^verbatim>\<open>delete\<close> all act on
  the path \<^verbatim>\<open><storage-root>/<title>.txt\<close> of the title they are given. The path
  is an injective function of the title: two titles have the same path only if they are the
  same string. For identifiers the files themselves are distinct too: the paths of two
  identifiers resolve to the same location only if the identifiers are equal.
\<close>

theorem storage_path_injective:
  "loadPage cfg t fs =
     (case ReadFile fs (storage_path_of (STORAGE_PATH cfg) t) of
        Inl err \<Rightarrow> Inl err
      | Inr body \<Rightarrow> Inr \<lparr>pageModel.Title = t, Body = body\<rparr>) \<and>
   save cfg p fs =
     (case (case Stat fs (STORAGE_PATH cfg) of
              Inl err \<Rightarrow> if IsNotExist err then Mkdir fs (STORAGE_PATH cfg) else Inr fs
            | Inr _ \<Rightarrow> Inr fs) of
        Inl err \<Rightarrow> (Some err, fs)
      | Inr fs1 \<Rightarrow>
          (case WriteFile fs1 (storage_path_of (STORAGE_PATH cfg) (pageModel.Title p)) (Body p) of
             Inl err \<Rightarrow> (Some err, fs1)
           | Inr fs2 \<Rightarrow> (None, fs2))) \<and>
   delete cfg p fs =
     (case (case Stat fs (STORAGE_PATH cfg) of
              Inl err \<Rightarrow> if IsNotExist err then Mkdir fs (STORAGE_PATH cfg) else Inr fs
            | Inr _ \<Rightarrow> Inr fs) of
        Inl err \<Rightarrow> (Some err, fs)
      | Inr fs1 \<Rightarrow>
          (case Remove fs1 (storage_path_of (STORAGE_PATH cfg) (pageModel.Title p)) of
             Inl err \<Rightarrow> (Some err, fs1)
           | Inr fs2 \<Rightarrow> (None, fs2))) \<and>
   (storage_path_of root t1 = storage_path_of root t2 \<longleftrightarrow> t1 = t2) \<and>
   (is_identifier t1 \<and> is_identifier t2 \<and>
    resolve fs (storage_path_of root t1) = Inr c \<and>
    resolve fs (storage_path_of root t2) = Inr c \<longrightarrow> t1 = t2)"
proof (intro conjI impI)
  assume a: "is_identifier t1 \<and> is_identifier t2 \<and>
    resolve fs (storage_path_of root t1) = Inr c \<and>
    resolve fs (storage_path_of root t2) = Inr c"
  then obtain d1 d2 where "c = d1 @ [t1 @ ''.txt'']" "c = d2 @ [t2 @ ''.txt'']"
    using resolve_page_location[of fs root t1 c] resolve_page_location[of fs root t2 c]
      is_identifier_no_slash[of t1] is_identifier_no_slash[of t2]
    by (auto simp: storage_path_of_def)
  then show "t1 = t2" by simp
next
  show "storage_path_of root t1 = storage_path_of root t2 \<longleftrightarrow> t1 = t2"
    by (simp add: storage_path_of_def)
next
  show "loadPage cfg t fs =
     (case ReadFile fs (storage_path_of (STORAGE_PATH cfg) t) of
        Inl err \<Rightarrow> Inl err
      | Inr body \<Rightarrow> Inr \<lparr>pageModel.Title = t, Body = body\<rparr>)"
    unfolding loadPage_def storage_path_of_def Let_def by (rule refl)
next
  show "save cfg p fs =
     (case (case Stat fs (STORAGE_PATH cfg) of
              Inl err \<Rightarrow> if IsNotExist err then Mkdir fs (STORAGE_PATH cfg) else Inr fs
            | Inr _ \<Rightarrow> Inr fs) of
        Inl err \<Rightarrow> (Some err, fs)
      | Inr fs1 \<Rightarrow>
          (case WriteFile fs1 (storage_path_of (STORAGE_PATH cfg) (pageModel.Title p)) (Body p) of
             Inl err \<Rightarrow> (Some err, fs1)
           | Inr fs2 \<Rightarrow> (None, fs2)))"
    unfolding save_def storage_path_of_def Let_def by (rule refl)
next
  show "delete cfg p fs =
     (case (case Stat fs (STORAGE_PATH cfg) of
              Inl err \<Rightarrow> if IsNotExist err then Mkdir fs (STORAGE_PATH cfg) else Inr fs
            | Inr _ \<Rightarrow> Inr fs) of
        Inl err \<Rightarrow> (Some err, fs)
      | Inr fs1 \<Rightarrow>
          (case Remove fs1 (storage_path_of (STORAGE_PATH cfg) (pageModel.Title p)) of
             Inl err \<Rightarrow> (Some err, fs1)
           | Inr fs2 \<Rightarrow> (None, fs2)))"
    unfolding delete_def storage_path_of_def Let_def by (rule refl)
qed

lemma ex_fs_page_resolve:
  "resolve ex_fs_page (storage_path_of ''data'' ''test'') = Inr [''srv'', ''data'', ''test.txt'']"
  by code_simp

theorem storage_path_injective_witness:
  "storage_path_of ''data'' ''test'' \<noteq> storage_path_of ''data'' ''Test'' \<and>
   is_identifier ''test'' \<and>
   resolve ex_fs_page (storage_path_of ''data'' ''test'') = Inr [''srv'', ''data'', ''test.txt'']"
  using storage_path_injective[of "ex_cfg ''data''" "''test''" ex_fs_page
      "\<lparr>pageModel.Title = ''test'', Body = []\<rparr>" "''data''" "''test''" "''Test''"
      "[''srv'', ''data'', ''test.txt'']"]
    is_identifier_test ex_fs_page_resolve
  by simp

subsection \<open>Handlers\<close>

lemma Stat_NotExist_ReadFile:
  assumes "Stat fs p = Inl e" "IsNotExist e"
  shows "ReadFile fs p = Inl (PathError ''open'' p ENOENT)"
  using assms
  by (auto simp: Stat_def ReadFile_def split: sum.splits option.splits node.splits if_splits)

lemma makeHandler_identifier:
  assumes "op \<in> set route_ops" "is_identifier t" "Path r = ''/'' @ op @ ''/'' @ t"
  shows "makeHandler fn r fs = fn r t fs"
  using FindStringSubmatch_route[OF assms(1,2)] assms(3)
  by (simp add: makeHandler_def)

lemma serve_view:
  assumes "is_identifier t" "Path r = ''/view/'' @ t"
  shows "serve cfg r fs = viewHandler cfg r t fs"
proof -
  have "makeHandler (viewHandler cfg) r fs = viewHandler cfg r t fs"
    using assms by (intro makeHandler_identifier[of "''view''"]) (simp_all add: route_ops_def)
  moreover have "\<exists>op ident. op \<in> set route_ops \<and> is_identifier ident \<and>
      Path r = ''/'' @ op @ ''/'' @ ident"
    using assms by (intro exI[of _ "''view''"] exI[of _ t]) (simp add: route_ops_def)
  then have "route_grammar (Path r)"
    unfolding route_grammar_iff by blast
  ultimately show ?thesis
    using assms(2) by (simp add: serve_route mux_handler_def HasPrefix_def)
qed

lemma viewHandler_load_error:
  "loadPage cfg t fs = Inl e \<Longrightarrow>
     viewHandler cfg r t fs = ([Redirect (''/edit/'' @ t) StatusFound], fs)"
  by (simp add: viewHandler_def)

text \<open>
  Claim C4. When no file exists at the page's path (\<^verbatim>\<open>os.Stat\<close> reports that it
  does not exist), \<^verbatim>\<open>viewHandler\<close> answers with \<^verbatim>\<open>http.Redirect\<close> to
  \<^verbatim>\<open>/edit/\<close> followed by the same title, with status 302, and leaves the file system
  as it was; so does a request for \<^verbatim>\<open>/view/t\<close> through the dispatch, for every
  identifier \<^verbatim>\<open>t\<close>. The status is not 500.
\<close>

theorem view_missing_page_redirects:
  assumes "Stat fs (STORAGE_PATH cfg @ ''/'' @ t @ ''.txt'') = Inl e" "IsNotExist e"
  shows "viewHandler cfg r t fs = ([Redirect (''/edit/'' @ t) 302], fs) \<and>
         status_code (fst (viewHandler cfg r t fs)) = 302 \<and>
         (is_identifier t \<longrightarrow>
            serve cfg \<lparr>Method = m, Path = ''/view/'' @ t, Query = q, FormBody = bd\<rparr> fs =
              ([Redirect (''/edit/'' @ t) 302], fs))"
proof -
  have "loadPage cfg t fs =
          Inl (PathError ''open'' (STORAGE_PATH cfg @ ''/'' @ t @ ''.txt'') ENOENT)"
    using Stat_NotExist_ReadFile[OF assms] by (simp add: loadPage_def)
  then have v: "\<And>r. viewHandler cfg r t fs = ([Redirect (''/edit/'' @ t) 302], fs)"
    by (simp add: viewHandler_load_error StatusFound_def)
  show ?thesis
    using v
      serve_view[of t "\<lparr>Method = m, Path = ''/view/'' @ t, Query = q, FormBody = bd\<rparr>" cfg fs]
    by simp
qed

lemma ex_fs_data_Stat_test:
  "Stat ex_fs_data ''data/test.txt'' = Inl (PathError ''stat'' ''data/test.txt'' ENOENT)"
  by code_simp

theorem view_missing_page_redirects_witness:
  "is_identifier ''test'' \<and>
   serve (ex_cfg ''data'')
     \<lparr>Method = ''GET'', Path = ''/view/test'', Query = [], FormBody = NoForm\<rparr> ex_fs_data =
     ([Redirect ''/edit/test'' 302], ex_fs_data)"
  using view_missing_page_redirects[of ex_fs_data "ex_cfg ''data''" "''test''"
      "PathError ''stat'' ''data/test.txt'' ENOENT" "ex_request ''GET'' ''/view/test'' []" "''GET''"
      "[]" NoForm]
    ex_fs_data_Stat_test is_identifier_test
  by (simp add: ex_cfg_def)

lemma renderTemplate_missing:
  "templates cfg ''base.html'' = None \<or> templates cfg (tmpl @ ''.html'') = None \<Longrightarrow>
     renderTemplate cfg pd tmpl =
       [Error ''Not found base or content template'' StatusInternalServerError]"
  by (auto simp: renderTemplate_def split: option.splits)

lemma renderTemplate_content_error:
  "templates cfg ''base.html'' = Some baseTmpl \<Longrightarrow>
   templates cfg (tmpl @ ''.html'') = Some contentTmpl \<Longrightarrow>
   contentTmpl (Content pd) = (chunks, Some err) \<Longrightarrow>
     renderTemplate cfg pd tmpl = [Error err StatusInternalServerError]"
  by (simp add: renderTemplate_def)

lemma renderTemplate_base_error:
  "templates cfg ''base.html'' = Some baseTmpl \<Longrightarrow>
   templates cfg (tmpl @ ''.html'') = Some contentTmpl \<Longrightarrow>
   contentTmpl (Content pd) = (chunks, None) \<Longrightarrow>
   baseTmpl (BaseData (pageData.Title pd) (concat chunks)) = (out, Some err) \<Longrightarrow>
     renderTemplate cfg pd tmpl = map Write out @ [Error err StatusInternalServerError]"
  by (simp add: renderTemplate_def)

text \<open>
  Claim C5, as amended. The errors of \<^verbatim>\<open>save\<close> and of \<^verbatim>\<open>delete\<close>, the
  error of the load that precedes a delete, the error of \<^verbatim>\<open>Glob\<close> and the errors
  of rendering are answered with \<^verbatim>\<open>http.Error\<close>, code 500 and the text of the
  error (a failure of the base layout after the chunks that were already written). During
  view, every failure of the load, whatever its kind, becomes a redirect with status 302 to the
  edit path of the same title; during edit, every failure of the load becomes the form of a
  new page.
\<close>

theorem errors_to_500_view_redirects:
  "(loadPage cfg t fs = Inl e \<longrightarrow>
      viewHandler cfg r t fs = ([Redirect (''/edit/'' @ t) 302], fs) \<and>
      editHandler cfg r t fs =
        (renderTemplate cfg \<lparr>pageData.Title = ''Edit '' @ t,
           Content = PageContent \<lparr>pageModel.Title = t, Body = []\<rparr>\<rparr> ''edit'', fs) \<and>
      deleteHandler cfg r t fs = ([Error (Error_text e) 500], fs)) \<and>
   (save cfg \<lparr>pageModel.Title = FormValue r ''title'', Body = FormValue r ''body''\<rparr> fs =
      (Some e, fs') \<longrightarrow>
      saveHandler cfg r t fs = ([Error (Error_text e) 500], fs')) \<and>
   (loadPage cfg t fs = Inr p \<and> delete cfg p fs = (Some e, fs') \<longrightarrow>
      deleteHandler cfg r t fs = ([Error (Error_text e) 500], fs')) \<and>
   (list_titles cfg fs = None \<longrightarrow>
      indexHandler cfg r t fs = ([Error ''syntax error in pattern'' 500], fs)) \<and>
   (templates cfg ''base.html'' = None \<or> templates cfg (tmpl @ ''.html'') = None \<longrightarrow>
      renderTemplate cfg pd tmpl = [Error ''Not found base or content template'' 500]) \<and>
   (templates cfg ''base.html'' = Some baseTmpl \<and>
    templates cfg (tmpl @ ''.html'') = Some contentTmpl \<and>
    contentTmpl (Content pd) = (chunks, Some err) \<longrightarrow>
      renderTemplate cfg pd tmpl = [Error err 500]) \<and>
   (templates cfg ''base.html'' = Some baseTmpl \<and>
    templates cfg (tmpl @ ''.html'') = Some contentTmpl \<and>
    contentTmpl (Content pd) = (chunks, None) \<and>
    baseTmpl (BaseData (pageData.Title pd) (concat chunks)) = (out, Some err) \<longrightarrow>
      renderTemplate cfg pd tmpl = map Write out @ [Error err 500])"
  by (auto simp: viewHandler_def editHandler_def deleteHandler_def saveHandler_def
      indexHandler_def renderTemplate_missing renderTemplate_content_error
      renderTemplate_base_error StatusFound_def StatusInternalServerError_def Let_def)

lemma ex_fs_dir_load:
  "loadPage (ex_cfg ''data'') ''test'' ex_fs_dir =
     Inl (PathError ''read'' ''data/test.txt'' EISDIR)"
  by code_simp

theorem errors_to_500_view_redirects_witness:
  "viewHandler (ex_cfg ''data'') (ex_request ''GET'' ''/view/test'' []) ''test'' ex_fs_dir =
     ([Redirect ''/edit/test'' 302], ex_fs_dir) \<and>
   deleteHandler (ex_cfg ''data'') (ex_request ''GET'' ''/view/test'' []) ''test'' ex_fs_dir =
     ([Error ''read data/test.txt: is a directory'' 500], ex_fs_dir)"
  using errors_to_500_view_redirects[of "ex_cfg ''data''" "''test''" ex_fs_dir
      "PathError ''read'' ''data/test.txt'' EISDIR" "ex_request ''GET'' ''/view/test'' []"]
    ex_fs_dir_load
  by simp

text \<open>
  The claim as it was stated fails: with a directory at the page's path the load fails with
  \<^verbatim>\<open>EISDIR\<close>, which is not a not-found error, and the view still answers with the
  redirect, status 302, not with a 500.
\<close>

theorem view_storage_error_counterexample:
  "loadPage (ex_cfg ''data'') ''test'' ex_fs_dir =
     Inl (PathError ''read'' ''data/test.txt'' EISDIR) \<and>
   \<not> IsNotExist (PathError ''read'' ''data/test.txt'' EISDIR) \<and>
   serve (ex_cfg ''data'') (ex_request ''GET'' ''/view/test'' []) ex_fs_dir =
     ([Redirect ''/edit/test'' 302], ex_fs_dir) \<and>
   status_code (fst (serve (ex_cfg ''data'') (ex_request ''GET'' ''/view/test'' []) ex_fs_dir))
     \<noteq> 500"
proof -
  have s: "serve (ex_cfg ''data'') (ex_request ''GET'' ''/view/test'' []) ex_fs_dir =
      viewHandler (ex_cfg ''data'') (ex_request ''GET'' ''/view/test'' []) ''test'' ex_fs_dir"
    by (rule serve_view) (simp_all add: is_identifier_test ex_request_def)
  show ?thesis
    unfolding s using ex_fs_dir_load
    by (simp add: viewHandler_load_error StatusFound_def)
qed

text \<open>
  Claim C8. \<^verbatim>\<open>renderTemplate\<close> looks both templates up and executes the content
  template into its buffer before the first call on the response writer. When the content
  template (or the base layout) is missing, or the content template fails, the whole response
  is the one call of \<^verbatim>\<open>http.Error\<close> with code 500: no chunk is written, also not
  the chunks the content template produced before it failed.
\<close>

theorem render_failure_writes_nothing:
  "(templates cfg ''base.html'' = None \<or> templates cfg (tmpl @ ''.html'') = None \<longrightarrow>
      renderTemplate cfg pd tmpl = [Error ''Not found base or content template'' 500]) \<and>
   (templates cfg ''base.html'' = Some baseTmpl \<and>
    templates cfg (tmpl @ ''.html'') = Some contentTmpl \<and>
    contentTmpl (Content pd) = (chunks, Some err) \<longrightarrow>
      renderTemplate cfg pd tmpl = [Error err 500]) \<and>
   ((templates cfg ''base.html'' = None \<or> templates cfg (tmpl @ ''.html'') = None \<or>
     (\<exists>contentTmpl chunks err. templates cfg (tmpl @ ''.html'') = Some contentTmpl \<and>
        contentTmpl (Content pd) = (chunks, Some err))) \<longrightarrow>
      status_code (renderTemplate cfg pd tmpl) = 500 \<and>
      (\<forall>s. Write s \<notin> set (renderTemplate cfg pd tmpl)))"
proof (intro conjI impI)
  assume "templates cfg ''base.html'' = None \<or> templates cfg (tmpl @ ''.html'') = None"
  then show "renderTemplate cfg pd tmpl = [Error ''Not found base or content template'' 500]"
    by (simp add: renderTemplate_missing StatusInternalServerError_def)
next
  assume "templates cfg ''base.html'' = Some baseTmpl \<and>
    templates cfg (tmpl @ ''.html'') = Some contentTmpl \<and>
    contentTmpl (Content pd) = (chunks, Some err)"
  then show "renderTemplate cfg pd tmpl = [Error err 500]"
    by (simp add: renderTemplate_content_error StatusInternalServerError_def)
next
  assume a: "templates cfg ''base.html'' = None \<or> templates cfg (tmpl @ ''.html'') = None \<or>
     (\<exists>contentTmpl chunks err. templates cfg (tmpl @ ''.html'') = Some contentTmpl \<and>
        contentTmpl (Content pd) = (chunks, Some err))"
  have "\<exists>msg. renderTemplate cfg pd tmpl = [Error msg 500]"
  proof (cases "templates cfg ''base.html''")
    case None
    then show ?thesis
      by (simp add: renderTemplate_missing StatusInternalServerError_def)
  next
    case (Some baseTmpl)
    with a show ?thesis
      by (auto simp: renderTemplate_missing renderTemplate_content_error
          StatusInternalServerError_def)
  qed
  then show "status_code (renderTemplate cfg pd tmpl) = 500"
    and "\<forall>s. Write s \<notin> set (renderTemplate cfg pd tmpl)"
    by auto
qed

lemma ex_templates:
  "templates (ex_cfg root) ''base.html'' = Some ex_base"
  "templates (ex_cfg root) (''view'' @ ''.html'') = Some ex_page"
  "templates (ex_cfg root) (''nosuch'' @ ''.html'') = None"
  by (simp_all add: ex_cfg_def)

theorem render_failure_writes_nothing_witness:
  "renderTemplate (ex_cfg ''data'')
     \<lparr>pageData.Title = ''View test'', Content = IndexContent \<lparr>Items = []\<rparr>\<rparr> ''view'' =
     [Error ''can't evaluate field Title'' 500] \<and>
   renderTemplate (ex_cfg ''data'')
     \<lparr>pageData.Title = ''View test'', Content = IndexContent \<lparr>Items = []\<rparr>\<rparr> ''nosuch'' =
     [Error ''Not found base or content template'' 500]"
  using render_failure_writes_nothing[of "ex_cfg ''data''" "''view''"
      "\<lparr>pageData.Title = ''View test'', Content = IndexContent \<lparr>Items = []\<rparr>\<rparr>"
      ex_base ex_page "[''<h1>'']" "''can't evaluate field Title''"]
    render_failure_writes_nothing[of "ex_cfg ''data''" "''nosuch''"
      "\<lparr>pageData.Title = ''View test'', Content = IndexContent \<lparr>Items = []\<rparr>\<rparr>"]
    ex_templates[of "''data''"]
  by (simp add: ex_page_def)

lemma handlers_ignore_method:
  "viewHandler cfg (r\<lparr>Method := m\<rparr>) = viewHandler cfg r"
  "editHandler cfg (r\<lparr>Method := m\<rparr>) = editHandler cfg r"
  "deleteHandler cfg (r\<lparr>Method := m\<rparr>) = deleteHandler cfg r"
  "indexHandler cfg (r\<lparr>Method := m\<rparr>) = indexHandler cfg r"
  by (simp_all add: fun_eq_iff viewHandler_def editHandler_def deleteHandler_def
      indexHandler_def)

lemma saveHandler_Form: "Form r' = Form r \<Longrightarrow> saveHandler cfg r' = saveHandler cfg r"
  by (simp add: fun_eq_iff saveHandler_def FormValue_def)

lemma makeHandler_ignores_method:
  assumes "fn (r\<lparr>Method := m\<rparr>) = fn r"
  shows "makeHandler fn (r\<lparr>Method := m\<rparr>) fs = makeHandler fn r fs"
  using assms by (simp add: makeHandler_def split: option.splits)

lemma makeHandler_method:
  "makeHandler (viewHandler cfg) (r\<lparr>Method := m\<rparr>) fs = makeHandler (viewHandler cfg) r fs"
  "makeHandler (editHandler cfg) (r\<lparr>Method := m\<rparr>) fs = makeHandler (editHandler cfg) r fs"
  "makeHandler (deleteHandler cfg) (r\<lparr>Method := m\<rparr>) fs =
     makeHandler (deleteHandler cfg) r fs"
  "makeHandler (indexHandler cfg) (r\<lparr>Method := m\<rparr>) fs =
     makeHandler (indexHandler cfg) r fs"
  by (rule makeHandler_ignores_method, rule handlers_ignore_method)+

lemma makeHandler_save_method:
  "Form (r\<lparr>Method := m\<rparr>) = Form r \<Longrightarrow>
     makeHandler (saveHandler cfg) (r\<lparr>Method := m\<rparr>) fs =
       makeHandler (saveHandler cfg) r fs"
  by (rule makeHandler_ignores_method) (rule saveHandler_Form)

lemma Form_method:
  assumes "(\<forall>ps. FormBody r \<noteq> UrlEncoded ps) \<or>
     ((m = ''POST'' \<or> m = ''PUT'' \<or> m = ''PATCH'') \<longleftrightarrow>
      (Method r = ''POST'' \<or> Method r = ''PUT'' \<or> Method r = ''PATCH''))"
  shows "Form (r\<lparr>Method := m\<rparr>) = Form r"
proof (cases "FormBody r")
  case (UrlEncoded ps)
  with assms have "(m = ''POST'' \<or> m = ''PUT'' \<or> m = ''PATCH'') \<longleftrightarrow>
      (Method r = ''POST'' \<or> Method r = ''PUT'' \<or> Method r = ''PATCH'')"
    by simp
  with UrlEncoded show ?thesis
    unfolding Form_def by (simp del: One_nat_def)
qed (simp_all add: Form_def)

lemma mux_handler_method:
  assumes "HasPrefix (Path r) ''/save/'' \<longrightarrow> Form (r\<lparr>Method := m\<rparr>) = Form r"
  shows "mux_handler cfg (r\<lparr>Method := m\<rparr>) fs = mux_handler cfg r fs"
proof (cases "HasPrefix (Path r) ''/save/''")
  case True
  with assms have "makeHandler (saveHandler cfg) (r\<lparr>Method := m\<rparr>) fs =
      makeHandler (saveHandler cfg) r fs"
    by (simp add: makeHandler_save_method)
  then show ?thesis
    unfolding mux_handler_def by (simp add: makeHandler_method)
next
  case False
  then show ?thesis
    unfolding mux_handler_def by (simp add: makeHandler_method)
qed

lemma net_http_answer_method:
  assumes "Path r \<noteq> ''*''" "m = ''CONNECT'' \<longleftrightarrow> Method r = ''CONNECT''"
  shows "net_http_answer (r\<lparr>Method := m\<rparr>) = net_http_answer r"
  using assms unfolding net_http_answer_def by (simp add: Let_def)

text \<open>
  Claim C10, as amended. No handler and no line of the dispatch of the program reads the
  method of the request: for two requests that differ in their method only, the view, edit,
  delete and index handlers behind \<^verbatim>\<open>makeHandler\<close> make the same calls on the
  response writer and leave the same file system, and so does the save handler whenever \<^verbatim>\<open>r.FormValue\<close> sees the
  same form for both. The library sees the same form unless the body is url-encoded and exactly
  one of the two methods is \<^verbatim>\<open>POST\<close>, \<^verbatim>\<open>PUT\<close> or
  \<^verbatim>\<open>PATCH\<close>. Through the dispatch of \<^verbatim>\<open>main\<close> the two requests are
  answered alike for every path of the route grammar (with that condition on the form for the
  save route), and for every other path except \<^verbatim>\<open>*\<close> when both or neither of
  the methods are \<^verbatim>\<open>CONNECT\<close>. So a \<^verbatim>\<open>GET\<close> of
  \<^verbatim>\<open>/delete/id\<close> deletes as a \<^verbatim>\<open>POST\<close> does, and a
  \<^verbatim>\<open>GET\<close> of \<^verbatim>\<open>/save/id\<close> saves as a \<^verbatim>\<open>POST\<close> does
  when the fields travel in the query string.
\<close>

theorem method_never_inspected:
  "makeHandler (viewHandler cfg) (r\<lparr>Method := m\<rparr>) fs = makeHandler (viewHandler cfg) r fs \<and>
   makeHandler (editHandler cfg) (r\<lparr>Method := m\<rparr>) fs = makeHandler (editHandler cfg) r fs \<and>
   makeHandler (deleteHandler cfg) (r\<lparr>Method := m\<rparr>) fs =
     makeHandler (deleteHandler cfg) r fs \<and>
   makeHandler (indexHandler cfg) (r\<lparr>Method := m\<rparr>) fs =
     makeHandler (indexHandler cfg) r fs \<and>
   (Form (r\<lparr>Method := m\<rparr>) = Form r \<longrightarrow>
      makeHandler (saveHandler cfg) (r\<lparr>Method := m\<rparr>) fs =
        makeHandler (saveHandler cfg) r fs) \<and>
   ((\<forall>ps. FormBody r \<noteq> UrlEncoded ps) \<or>
    ((m = ''POST'' \<or> m = ''PUT'' \<or> m = ''PATCH'') \<longleftrightarrow>
     (Method r = ''POST'' \<or> Method r = ''PUT'' \<or> Method r = ''PATCH'')) \<longrightarrow>
      Form (r\<lparr>Method := m\<rparr>) = Form r) \<and>
   (route_grammar (Path r) \<and>
    (HasPrefix (Path r) ''/save/'' \<longrightarrow> Form (r\<lparr>Method := m\<rparr>) = Form r) \<longrightarrow>
      serve cfg (r\<lparr>Method := m\<rparr>) fs = serve cfg r fs) \<and>
   (Path r \<noteq> ''*'' \<and> (m = ''CONNECT'' \<longleftrightarrow> Method r = ''CONNECT'') \<and>
    (HasPrefix (Path r) ''/save/'' \<longrightarrow> Form (r\<lparr>Method := m\<rparr>) = Form r) \<longrightarrow>
      serve cfg (r\<lparr>Method := m\<rparr>) fs = serve cfg r fs)"
proof (intro conjI impI)
  show "makeHandler (viewHandler cfg) (r\<lparr>Method := m\<rparr>) fs = makeHandler (viewHandler cfg) r fs"
    by (rule makeHandler_method)
  show "makeHandler (editHandler cfg) (r\<lparr>Method := m\<rparr>) fs = makeHandler (editHandler cfg) r fs"
    by (rule makeHandler_method)
  show "makeHandler (deleteHandler cfg) (r\<lparr>Method := m\<rparr>) fs =
     makeHandler (deleteHandler cfg) r fs"
    by (rule makeHandler_method)
  show "makeHandler (indexHandler cfg) (r\<lparr>Method := m\<rparr>) fs =
     makeHandler (indexHandler cfg) r fs"
    by (rule makeHandler_method)
next
  assume "Form (r\<lparr>Method := m\<rparr>) = Form r"
  then show "makeHandler (saveHandler cfg) (r\<lparr>Method := m\<rparr>) fs =
      makeHandler (saveHandler cfg) r fs"
    by (rule makeHandler_save_method)
next
  assume "(\<forall>ps. FormBody r \<noteq> UrlEncoded ps) \<or>
    ((m = ''POST'' \<or> m = ''PUT'' \<or> m = ''PATCH'') \<longleftrightarrow>
     (Method r = ''POST'' \<or> Method r = ''PUT'' \<or> Method r = ''PATCH''))"
  then show "Form (r\<lparr>Method := m\<rparr>) = Form r"
    by (rule Form_method)
next
  assume a: "route_grammar (Path r) \<and>
    (HasPrefix (Path r) ''/save/'' \<longrightarrow> Form (r\<lparr>Method := m\<rparr>) = Form r)"
  then have "route_grammar (Path (r\<lparr>Method := m\<rparr>))"
    by simp
  then have "serve cfg (r\<lparr>Method := m\<rparr>) fs = mux_handler cfg (r\<lparr>Method := m\<rparr>) fs"
    by (rule serve_route)
  also have "\<dots> = mux_handler cfg r fs"
    using a by (intro mux_handler_method) simp
  also have "\<dots> = serve cfg r fs"
    using a by (simp add: serve_route)
  finally show "serve cfg (r\<lparr>Method := m\<rparr>) fs = serve cfg r fs" .
next
  assume a: "Path r \<noteq> ''*'' \<and> (m = ''CONNECT'' \<longleftrightarrow> Method r = ''CONNECT'') \<and>
    (HasPrefix (Path r) ''/save/'' \<longrightarrow> Form (r\<lparr>Method := m\<rparr>) = Form r)"
  then have n: "net_http_answer (r\<lparr>Method := m\<rparr>) = net_http_answer r"
    by (intro net_http_answer_method) simp_all
  have h: "mux_handler cfg (r\<lparr>Method := m\<rparr>) fs = mux_handler cfg r fs"
    using a by (intro mux_handler_method) simp
  show "serve cfg (r\<lparr>Method := m\<rparr>) fs = serve cfg r fs"
    unfolding serve_def n h ..
qed

lemma ex_post_delete:
  "serve (ex_cfg ''data'') (ex_request ''POST'' ''/delete/test'' []) ex_fs_page =
     ([Redirect ''/'' 302], ex_fs_data)"
  by code_simp

lemma ex_post_save_query:
  "serve (ex_cfg ''data'')
     \<lparr>Method = ''POST'', Path = ''/save/test'',
      Query = [(''title'', ''test''), (''body'', ''hello'')], FormBody = NoForm\<rparr> ex_fs_data =
     ([Redirect ''/view/test'' 302], ex_fs_page)"
  by code_simp

lemma ex_route_grammar:
  "route_grammar ''/delete/test''" "route_grammar ''/save/test''"
  by code_simp+

theorem method_never_inspected_witness:
  "serve (ex_cfg ''data'') (ex_request ''GET'' ''/delete/test'' []) ex_fs_page =
     ([Redirect ''/'' 302], ex_fs_data) \<and>
   serve (ex_cfg ''data'')
     \<lparr>Method = ''GET'', Path = ''/save/test'',
      Query = [(''title'', ''test''), (''body'', ''hello'')], FormBody = NoForm\<rparr> ex_fs_data =
     ([Redirect ''/view/test'' 302], ex_fs_page)"
proof -
  let ?d = "ex_request ''POST'' ''/delete/test'' []"
  let ?s = "\<lparr>Method = ''POST'', Path = ''/save/test'',
      Query = [(''title'', ''test''), (''body'', ''hello'')], FormBody = NoForm\<rparr>"
  have g: "ex_request ''GET'' ''/delete/test'' [] = ?d\<lparr>Method := ''GET''\<rparr>"
    by (simp add: ex_request_def)
  have pd: "Path ?d = ''/delete/test''" "\<not> HasPrefix (Path ?d) ''/save/''"
    by (simp_all add: ex_request_def HasPrefix_def)
  have f: "Form (?s\<lparr>Method := ''GET''\<rparr>) = Form ?s"
    by (simp add: Form_def)
  have a: "serve (ex_cfg ''data'') (?d\<lparr>Method := ''GET''\<rparr>) ex_fs_page =
      serve (ex_cfg ''data'') ?d ex_fs_page"
    using method_never_inspected[where cfg = "ex_cfg ''data''" and r = ?d and m = "''GET''"
        and fs = ex_fs_page] pd ex_route_grammar(1)
    by simp
  have b: "serve (ex_cfg ''data'') (?s\<lparr>Method := ''GET''\<rparr>) ex_fs_data =
      serve (ex_cfg ''data'') ?s ex_fs_data"
    using method_never_inspected[where cfg = "ex_cfg ''data''" and r = ?s and m = "''GET''"
        and fs = ex_fs_data] f ex_route_grammar(2)
    by simp
  show ?thesis
    unfolding g using a b ex_post_delete ex_post_save_query by simp
qed

text \<open>
  The claim as it was stated fails for the save route: \<^verbatim>\<open>r.FormValue\<close> reads a
  url-encoded body only for \<^verbatim>\<open>POST\<close>, \<^verbatim>\<open>PUT\<close> and
  \<^verbatim>\<open>PATCH\<close>. The \<^verbatim>\<open>POST\<close> of \<^verbatim>\<open>/save/test\<close> with the
  body \<^verbatim>\<open>title=test&body=hello\<close> saves the page \<^verbatim>\<open>test\<close>; the same
  request with the method \<^verbatim>\<open>GET\<close> finds both fields empty, writes the empty file
  \<^verbatim>\<open>data/.txt\<close> and redirects to \<^verbatim>\<open>/view/\<close>.
\<close>

theorem method_never_inspected_counterexample:
  "serve (ex_cfg ''data'')
     (ex_request ''POST'' ''/save/test'' [(''title'', ''test''), (''body'', ''hello'')]) ex_fs_data =
     ([Redirect ''/view/test'' 302], ex_fs_page) \<and>
   serve (ex_cfg ''data'')
     ((ex_request ''POST'' ''/save/test'' [(''title'', ''test''), (''body'', ''hello'')])
        \<lparr>Method := ''GET''\<rparr>) ex_fs_data =
     ([Redirect ''/view/'' 302], ex_fs_blank) \<and>
   node_at ex_fs_blank [''srv'', ''data'', ''test.txt''] = None \<and>
   node_at ex_fs_page [''srv'', ''data'', ''test.txt''] = Some (File ''hello'')"
  by code_simp

text \<open>
  Claim C3. \<^verbatim>\<open>saveHandler\<close> does not use the identifier that the route grammar
  validated: its result is the same for every identifier, and the page it saves carries the
  form field \<^verbatim>\<open>title\<close>, which nothing validates. For the form title
  \<^verbatim>\<open>../evil\<close>, which is no identifier, the request
  \<^verbatim>\<open>/save/test\<close> passes the route grammar and the write lands in
  \<^verbatim>\<open>/srv/evil.txt\<close>, outside the storage directory \<^verbatim>\<open>/srv/data\<close>,
  while no page \<^verbatim>\<open>test\<close> is written.
\<close>

theorem save_uses_unvalidated_form_title:
  "saveHandler cfg r param fs = saveHandler cfg r param' fs \<and>
   saveHandler cfg r param fs =
     (case save cfg \<lparr>pageModel.Title = FormValue r ''title'', Body = FormValue r ''body''\<rparr> fs of
        (Some err, fs') \<Rightarrow> ([Error (Error_text err) 500], fs')
      | (None, fs') \<Rightarrow> ([Redirect (''/view/'' @ FormValue r ''title'') 302], fs')) \<and>
   route_grammar ''/save/test'' \<and> \<not> is_identifier ''../evil'' \<and>
   serve (ex_cfg ''data'')
     (ex_request ''POST'' ''/save/test'' [(''title'', ''../evil''), (''body'', ''hello'')])
     ex_fs_data = ([Redirect ''/view/../evil'' 302], ex_fs_evil) \<and>
   node_at ex_fs_evil [''srv'', ''evil.txt''] = Some (File ''hello'') \<and>
   node_at ex_fs_evil [''srv'', ''data'', ''test.txt''] = None \<and>
   resolve ex_fs_evil ''data'' = Inr [''srv'', ''data'']"
proof (intro conjI)
  show "saveHandler cfg r param fs = saveHandler cfg r param' fs"
    by (simp add: saveHandler_def)
  show "saveHandler cfg r param fs =
     (case save cfg \<lparr>pageModel.Title = FormValue r ''title'', Body = FormValue r ''body''\<rparr> fs of
        (Some err, fs') \<Rightarrow> ([Error (Error_text err) 500], fs')
      | (None, fs') \<Rightarrow> ([Redirect (''/view/'' @ FormValue r ''title'') 302], fs'))"
    by (simp add: saveHandler_def Let_def StatusFound_def StatusInternalServerError_def
        split: prod.splits option.splits)
  show "route_grammar ''/save/test''"
    by code_simp
  show "\<not> is_identifier ''../evil''"
    by code_simp
  show "serve (ex_cfg ''data'')
     (ex_request ''POST'' ''/save/test'' [(''title'', ''../evil''), (''body'', ''hello'')])
     ex_fs_data = ([Redirect ''/view/../evil'' 302], ex_fs_evil)"
    by code_simp
  show "node_at ex_fs_evil [''srv'', ''evil.txt''] = Some (File ''hello'')"
    by code_simp
  show "node_at ex_fs_evil [''srv'', ''data'', ''test.txt''] = None"
    by code_simp
  show "resolve ex_fs_evil ''data'' = Inr [''srv'', ''data'']"
    by code_simp
qed

theorem save_uses_unvalidated_form_title_witness:
  "saveHandler (ex_cfg ''data'')
     (ex_request ''POST'' ''/save/test'' [(''title'', ''../evil''), (''body'', ''hello'')])
     ''other'' ex_fs_data = ([Redirect ''/view/../evil'' 302], ex_fs_evil)"
proof -
  let ?r = "ex_request ''POST'' ''/save/test'' [(''title'', ''../evil''), (''body'', ''hello'')]"
  have "saveHandler (ex_cfg ''data'') ?r ''test'' ex_fs_data =
          ([Redirect ''/view/../evil'' 302], ex_fs_evil)"
    by code_simp
  then show ?thesis
    using save_uses_unvalidated_form_title[where cfg = "ex_cfg ''data''" and r = ?r
        and param = "''other''" and fs = ex_fs_data and param' = "''test''"]
    by simp
qed

subsection \<open>Well-formedness is kept\<close>

lemma wf_entry:
  "wf fs \<Longrightarrow> node_at fs c = Some x \<Longrightarrow>
     list_all proper_name c \<and> (c = [] \<or> node_at fs (butlast c) = Some Dir)"
proof -
  assume w: "wf fs" and x: "node_at fs c = Some x"
  from x have "(c, x) \<in> set (nodes fs)"
    by (simp add: node_at_def map_of_SomeD)
  with w show ?thesis
    unfolding wf_def list_all_iff by fastforce
qed

lemma wfI:
  assumes "\<And>p x. (p, x) \<in> set (nodes fs) \<Longrightarrow>
     list_all proper_name p \<and> (p = [] \<or> node_at fs (butlast p) = Some Dir)"
  shows "wf fs"
  using assms unfolding wf_def list_all_iff by auto

lemma wf_set:
  "wf fs \<Longrightarrow> (p, x) \<in> set (nodes fs) \<Longrightarrow>
     list_all proper_name p \<and> (p = [] \<or> node_at fs (butlast p) = Some Dir)"
  unfolding wf_def list_all_iff by fastforce

lemma set_update_subset: "set (AList.update k v al) \<subseteq> insert (k, v) (set al)"
  by (induction al) auto

lemma set_delete_subset: "set (AList.delete k al) \<subseteq> {(p, x). (p, x) \<in> set al \<and> p \<noteq> k}"
  by (induction al) auto

lemma in_nodes_node_at: "(p, x) \<in> set (nodes fs) \<Longrightarrow> node_at fs p \<noteq> None"
  by (auto simp: node_at_def map_of_eq_None_iff intro: rev_image_eqI)

lemma wf_put_node:
  assumes "wf fs" "list_all proper_name c" "c = [] \<or> node_at fs (butlast c) = Some Dir"
    "node_at fs c \<noteq> Some Dir \<or> n = Dir"
  shows "wf (put_node fs c n)"
proof (rule wfI)
  fix p x
  assume "(p, x) \<in> set (nodes (put_node fs c n))"
  then have "(p, x) = (c, n) \<or> (p, x) \<in> set (nodes fs)"
    using set_update_subset[of c n "nodes fs"] by (auto simp: put_node_def)
  then have good: "list_all proper_name p \<and> (p = [] \<or> node_at fs (butlast p) = Some Dir)"
    using assms(1,2,3) wf_set by blast
  show "list_all proper_name p \<and> (p = [] \<or> node_at (put_node fs c n) (butlast p) = Some Dir)"
    using good assms(4) by (auto simp: node_at_put)
qed

lemma wf_del_node:
  assumes "wf fs" "\<And>x. node_at fs (c @ [x]) = None"
  shows "wf (del_node fs c)"
proof (rule wfI)
  fix p x
  assume "(p, x) \<in> set (nodes (del_node fs c))"
  then have in_fs: "(p, x) \<in> set (nodes fs)"
    using set_delete_subset[of c "nodes fs"] by (auto simp: del_node_def)
  then have good: "list_all proper_name p \<and> (p = [] \<or> node_at fs (butlast p) = Some Dir)"
    using assms(1) wf_set by blast
  have "butlast p \<noteq> c" if "p \<noteq> []"
  proof
    assume "butlast p = c"
    then have "p = c @ [last p]"
      using that by (metis append_butlast_last_id)
    then show False
      using assms(2)[of "last p"] in_nodes_node_at[OF in_fs] by simp
  qed
  then show "list_all proper_name p \<and> (p = [] \<or> node_at (del_node fs c) (butlast p) = Some Dir)"
    using good by (auto simp: node_at_del)
qed

lemma split_path_proper:
  "CHR ''/'' \<notin> set cur \<Longrightarrow> \<forall>x \<in> set (split_path cur s). x \<noteq> [] \<and> CHR ''/'' \<notin> set x"
proof (induction s arbitrary: cur)
  case Nil
  then show ?case by auto
next
  case (Cons a s)
  show ?case
  proof (cases "a = CHR ''/''")
    case True
    then show ?thesis
      using Cons.IH[of "[]"] Cons.prems by auto
  next
    case False
    then show ?thesis
      using Cons.IH[of "cur @ [a]"] Cons.prems by auto
  qed
qed

lemma components_proper: "x \<in> set (components p) \<Longrightarrow> x \<noteq> [] \<and> CHR ''/'' \<notin> set x"
  using split_path_proper[of "[]" p] by (simp add: components_def)

lemma split_path_cur_nonempty: "cur \<noteq> [] \<Longrightarrow> split_path cur s \<noteq> []"
  by (induction s arbitrary: cur) auto

lemma components_relative_nonempty: "p \<noteq> [] \<Longrightarrow> hd p \<noteq> CHR ''/'' \<Longrightarrow> components p \<noteq> []"
  by (cases p) (auto simp: components_def split_path_cur_nonempty)

lemma walk_last:
  "walk fs start cs = Inr c \<Longrightarrow> cs \<noteq> [] \<Longrightarrow>
     \<exists>cur. node_at fs cur = Some Dir \<and> c = step cur (last cs)"
proof (induction cs arbitrary: start)
  case Nil
  then show ?case by simp
next
  case (Cons x cs)
  show ?case
  proof (cases "cs = []")
    case True
    with Cons.prems show ?thesis
      by (auto split: option.splits node.splits if_splits)
  next
    case False
    with Cons.prems have "walk fs (step start x) cs = Inr c"
      by (auto split: option.splits node.splits if_splits)
    from Cons.IH[OF this False] False show ?thesis by simp
  qed
qed

text \<open>A path that resolves to a place where nothing is names a new entry of a directory.\<close>

lemma resolve_new:
  assumes "wf fs" "resolve fs p = Inr c" "node_at fs c = None"
  shows "c = [] \<or> (\<exists>cur x. c = cur @ [x] \<and> node_at fs cur = Some Dir \<and> proper_name x)"
proof (cases "components p = []")
  case True
  with assms(2) components_relative_nonempty[of p] show ?thesis
    by (auto simp: resolve_def split: if_splits)
next
  case False
  with assms(2) obtain cur where cur: "node_at fs cur = Some Dir"
    "c = step cur (last (components p))"
    using walk_last[of fs _ "components p" c] by (auto simp: resolve_def split: if_splits)
  let ?x = "last (components p)"
  have x: "?x \<noteq> [] \<and> CHR ''/'' \<notin> set ?x"
    using False by (intro components_proper[of _ p]) simp
  show ?thesis
  proof (cases "?x = ''.'' \<or> ?x = ''..''")
    case True
    then have "c = cur \<or> c = butlast cur"
      using cur(2) by (auto simp: step_def)
    moreover have "node_at fs (butlast cur) \<noteq> None"
      using wf_entry[OF assms(1) cur(1)] cur(1) by (cases "cur = []") auto
    ultimately show ?thesis
      using assms(3) cur(1) by auto
  next
    case False
    then have "c = cur @ [?x]" "proper_name ?x"
      using cur(2) x by (auto simp: step_def proper_name_def)
    with cur(1) show ?thesis by blast
  qed
qed

lemma resolve_place:
  assumes "wf fs" "resolve fs p = Inr c"
  shows "list_all proper_name c \<and> (c = [] \<or> node_at fs (butlast c) = Some Dir)"
proof (cases "node_at fs c")
  case None
  from resolve_new[OF assms None] show ?thesis
  proof
    assume "c = []" then show ?thesis by simp
  next
    assume "\<exists>cur x. c = cur @ [x] \<and> node_at fs cur = Some Dir \<and> proper_name x"
    then obtain cur x where *: "c = cur @ [x]" "node_at fs cur = Some Dir" "proper_name x"
      by blast
    with wf_entry[OF assms(1) *(2)] show ?thesis by simp
  qed
next
  case (Some x)
  then show ?thesis using wf_entry[OF assms(1)] by blast
qed

lemma wf_Mkdir: "wf fs \<Longrightarrow> Mkdir fs p = Inr fs' \<Longrightarrow> wf fs'"
  by (auto simp: Mkdir_def split: sum.splits option.splits
      intro!: wf_put_node dest: resolve_place)

lemma wf_WriteFile: "wf fs \<Longrightarrow> WriteFile fs p b = Inr fs' \<Longrightarrow> wf fs'"
  by (auto elim!: WriteFile_cases intro!: wf_put_node dest: resolve_place)

lemma dir_entries_empty:
  assumes "dir_entries fs c = []"
  shows "node_at fs (c @ [x]) = None"
proof (rule ccontr)
  assume "node_at fs (c @ [x]) \<noteq> None"
  then obtain n where "(c @ [x], n) \<in> set (nodes fs)"
    by (auto simp: node_at_def dest: map_of_SomeD)
  then have "x \<in> set (dir_entries fs c)"
    by (force simp: dir_entries_def)
  with assms show False by simp
qed

lemma wf_Remove: "wf fs \<Longrightarrow> Remove fs p = Inr fs' \<Longrightarrow> wf fs'"
proof -
  assume w: "wf fs" and r: "Remove fs p = Inr fs'"
  then obtain c where c: "fs' = del_node fs c"
    "(\<exists>b. node_at fs c = Some (File b)) \<or> dir_entries fs c = []"
    by (auto simp: Remove_def split: sum.splits option.splits node.splits if_splits)
  have "node_at fs (c @ [x]) = None" for x
  proof (cases "dir_entries fs c = []")
    case True
    then show ?thesis by (rule dir_entries_empty)
  next
    case False
    with c(2) obtain b where "node_at fs c = Some (File b)" by blast
    then show ?thesis
      using wf_entry[OF w, of "c @ [x]"] by (cases "node_at fs (c @ [x])") auto
  qed
  then show ?thesis
    unfolding c(1) using w by (intro wf_del_node)
qed

lemma wf_save: "wf fs \<Longrightarrow> save cfg p fs = (e, fs') \<Longrightarrow> wf fs'"
  by (auto simp: save_def Let_def split: sum.splits if_splits dest: wf_Mkdir wf_WriteFile)

lemma wf_delete: "wf fs \<Longrightarrow> delete cfg p fs = (e, fs') \<Longrightarrow> wf fs'"
  by (auto simp: delete_def Let_def split: sum.splits if_splits dest: wf_Mkdir wf_Remove)

subsection \<open>The listing\<close>

lemma in_dir_entries:
  "n \<in> set (dir_entries fs d) \<longleftrightarrow> (\<exists>x. (d @ [n], x) \<in> set (nodes fs))"
proof
  assume "n \<in> set (dir_entries fs d)"
  then obtain p x where px: "(p, x) \<in> set (nodes fs)" "p \<noteq> []" "butlast p = d" "n = last p"
    unfolding dir_entries_def by auto
  from px(2,3,4) have "p = d @ [n]"
    by (metis append_butlast_last_id)
  with px(1) show "\<exists>x. (d @ [n], x) \<in> set (nodes fs)"
    by blast
next
  assume "\<exists>x. (d @ [n], x) \<in> set (nodes fs)"
  then obtain x where "(d @ [n], x) \<in> set (nodes fs)" ..
  then have "(d @ [n], x) \<in> {a \<in> set (nodes fs). case a of (p, n) \<Rightarrow> p \<noteq> [] \<and> butlast p = d}"
    by simp
  then have "(last \<circ> fst) (d @ [n], x) \<in> set (dir_entries fs d)"
    unfolding dir_entries_def set_remdups set_map set_filter by (rule imageI)
  then show "n \<in> set (dir_entries fs d)"
    by simp
qed

lemma node_at_in_nodes: "(\<exists>y. node_at fs p = Some y) \<longleftrightarrow> (\<exists>x. (p, x) \<in> set (nodes fs))"
proof
  assume "\<exists>y. node_at fs p = Some y"
  then show "\<exists>x. (p, x) \<in> set (nodes fs)"
    by (auto simp: node_at_def dest: map_of_SomeD)
next
  assume "\<exists>x. (p, x) \<in> set (nodes fs)"
  then obtain x where "(p, x) \<in> set (nodes fs)" ..
  then have "node_at fs p \<noteq> None"
    by (rule in_nodes_node_at)
  then show "\<exists>y. node_at fs p = Some y"
    by auto
qed

lemma set_dir_entries: "set (dir_entries fs d) = {n. \<exists>y. node_at fs (d @ [n]) = Some y}"
  by (rule set_eqI) (simp add: in_dir_entries node_at_in_nodes)

lemma dir_entries_proper:
  assumes "wf fs" "n \<in> set (dir_entries fs d)"
  shows "proper_name n"
proof -
  from assms(2) obtain x where "node_at fs (d @ [n]) = Some x"
    by (auto simp: set_dir_entries)
  from wf_entry[OF assms(1) this] show ?thesis by simp
qed

lemma HasSuffix_iff: "HasSuffix s x \<longleftrightarrow> (\<exists>t. s = t @ x)"
proof
  assume h: "HasSuffix s x"
  have "s = take (length s - length x) s @ drop (length s - length x) s"
    by simp
  also have "drop (length s - length x) s = x"
    using h by (simp add: HasSuffix_def)
  finally show "\<exists>t. s = t @ x" ..
next
  assume "\<exists>t. s = t @ x"
  then obtain t where "s = t @ x" ..
  then show "HasSuffix s x"
    by (simp add: HasSuffix_def)
qed

lemma Match_txt: "CHR ''/'' \<notin> set n \<Longrightarrow> Match ''*.txt'' n \<longleftrightarrow> (\<exists>t. n = t @ ''.txt'')"
proof -
  assume n: "CHR ''/'' \<notin> set n"
  have "set (take k n) \<subseteq> set n" for k
    by (rule set_take_subset)
  with n have "CHR ''/'' \<notin> set (take k n)" for k
    by blast
  then have "Match ''*.txt'' n \<longleftrightarrow> HasSuffix n ''.txt''"
    unfolding Match_def by simp
  then show ?thesis
    by (simp only: HasSuffix_iff)
qed

lemma TrimSuffix_append: "TrimSuffix (t @ x) x = t"
  by (simp add: TrimSuffix_def HasSuffix_def)

lemma TrimPrefix_append: "TrimPrefix (p @ s) p = s"
  by (simp add: TrimPrefix_def HasPrefix_def)

lemma Glob_clean_root:
  assumes "clean_root root"
  shows "Join root ''*.txt'' = root @ ''/*.txt''"
    and "Glob general fs (root @ ''/*.txt'') = Some (glob fs root ''*.txt'')"
proof -
  from assms have r: "root \<noteq> []" "root \<noteq> ''/''" "root \<noteq> ''.''" "Clean root = root"
    "\<not> hasMeta root"
    by (auto simp: clean_root_def)
  have "Clean (root @ CHR ''/'' # ''*.txt'') = root @ CHR ''/'' # ''*.txt''"
    using r(1-4) by (rule Clean_append_name) (simp add: proper_name_def)
  then show "Join root ''*.txt'' = root @ ''/*.txt''"
    using r(1) by (simp add: Join_def)
  have meta: "hasMeta (root @ ''/*.txt'')"
    by (simp add: hasMeta_def)
  have split: "Split (root @ ''/*.txt'') = (root @ ''/'', ''*.txt'')"
    using Split_last_segment[of "''*.txt''" root] by simp
  have dir: "cleanGlobPath (root @ ''/'') = root"
    using r(1) by (simp add: cleanGlobPath_def)
  have star: "star_literal ''*.txt''"
    by (simp add: star_literal_def hasMeta_def)
  show "Glob general fs (root @ ''/*.txt'') = Some (glob fs root ''*.txt'')"
    using meta r(5) star by (simp add: Glob_def split dir)
qed

lemma glob_clean_root:
  assumes "wf fs" "clean_root root"
  shows "map (\<lambda>file. TrimSuffix (TrimPrefix file (root @ ''/'')) ''.txt'') (glob fs root ''*.txt'') =
           (case Stat fs root of
              Inr Dir \<Rightarrow>
                (case resolve fs root of
                   Inl _ \<Rightarrow> []
                 | Inr d \<Rightarrow> map (\<lambda>n. TrimSuffix n ''.txt'')
                             (filter (Match ''*.txt'') (sort (dir_entries fs d))))
            | _ \<Rightarrow> [])"
proof -
  from assms(2) have r: "root \<noteq> []" "root \<noteq> ''/''" "root \<noteq> ''.''" "Clean root = root"
    by (auto simp: clean_root_def)
  have "TrimSuffix (TrimPrefix (Join root n) (root @ ''/'')) ''.txt'' = TrimSuffix n ''.txt''"
    if "n \<in> set (dir_entries fs d)" for n d
  proof -
    have "proper_name n"
      using assms(1) that by (rule dir_entries_proper)
    with r have "Clean (root @ ''/'' @ n) = (root @ ''/'') @ n"
      by (simp add: Clean_append_name)
    then show ?thesis
      using r(1) by (simp add: Join_def TrimPrefix_append del: append_assoc)
  qed
  then show ?thesis
    by (auto simp: glob_def comp_def split: sum.splits node.splits)
qed

lemma stored_titles_listing:
  assumes "wf fs" "resolve fs root = Inr d"
  shows "set (map (\<lambda>n. TrimSuffix n ''.txt'') (filter (Match ''*.txt'') (sort (dir_entries fs d)))) =
           {t. node_at fs (d @ [t @ ''.txt'']) \<noteq> None}"
proof -
  have "(\<lambda>n. TrimSuffix n ''.txt'') ` {n \<in> set (dir_entries fs d). Match ''*.txt'' n} =
          {t. t @ ''.txt'' \<in> set (dir_entries fs d)}"
  proof (intro set_eqI iffI)
    fix t assume "t \<in> (\<lambda>n. TrimSuffix n ''.txt'') ` {n \<in> set (dir_entries fs d). Match ''*.txt'' n}"
    then obtain n where n: "n \<in> set (dir_entries fs d)" "Match ''*.txt'' n"
      "t = TrimSuffix n ''.txt''"
      by auto
    have "CHR ''/'' \<notin> set n"
      using dir_entries_proper[OF assms(1) n(1)] by (simp add: proper_name_def)
    with n(2) obtain t' where "n = t' @ ''.txt''"
      by (auto simp: Match_txt)
    with n(1,3) show "t \<in> {t. t @ ''.txt'' \<in> set (dir_entries fs d)}"
      by (simp add: TrimSuffix_append)
  next
    fix t assume "t \<in> {t. t @ ''.txt'' \<in> set (dir_entries fs d)}"
    then have n: "t @ ''.txt'' \<in> set (dir_entries fs d)" by simp
    have "CHR ''/'' \<notin> set (t @ ''.txt'')"
      using dir_entries_proper[OF assms(1) n] by (simp add: proper_name_def)
    then have "Match ''*.txt'' (t @ ''.txt'')"
      by (subst Match_txt) auto
    with n show "t \<in> (\<lambda>n. TrimSuffix n ''.txt'') ` {n \<in> set (dir_entries fs d). Match ''*.txt'' n}"
      by (auto simp: image_iff TrimSuffix_append intro!: bexI[of _ "t @ ''.txt''"])
  qed
  then show ?thesis
    by (simp add: set_dir_entries)
qed

lemma list_titles_clean_root:
  assumes "wf fs" "clean_root (STORAGE_PATH cfg)"
  shows "\<exists>ts. list_titles cfg fs = Some ts \<and> set ts = stored_titles (STORAGE_PATH cfg) fs"
proof -
  let ?root = "STORAGE_PATH cfg"
  let ?ts = "map (\<lambda>file. TrimSuffix (TrimPrefix file (?root @ ''/'')) ''.txt'')
               (glob fs ?root ''*.txt'')"
  have l: "list_titles cfg fs = Some ?ts"
    using Glob_clean_root[OF assms(2)] by (simp add: list_titles_def)
  have "set ?ts = stored_titles ?root fs"
  proof (cases "Stat fs ?root = Inr Dir")
    case True
    then obtain d where d: "resolve fs ?root = Inr d" "node_at fs d = Some Dir"
      by (auto simp: Stat_Dir_iff)
    then show ?thesis
      unfolding glob_clean_root[OF assms] using True stored_titles_listing[OF assms(1) d(1)]
      by (simp add: stored_titles_def)
  next
    case False
    then have "stored_titles ?root fs = {}"
      by (auto simp: stored_titles_def Stat_Dir_iff)
    moreover have "?ts = []"
      unfolding glob_clean_root[OF assms] using False
      by (auto split: sum.splits node.splits)
    ultimately show ?thesis by simp
  qed
  with l show ?thesis by blast
qed

lemma stored_titles_at:
  "resolve fs root = Inr d \<Longrightarrow> node_at fs d = Some Dir \<Longrightarrow>
     stored_titles root fs = {t. node_at fs (d @ [t @ ''.txt'']) \<noteq> None}"
  by (simp add: stored_titles_def)

lemma stored_titles_Mkdir:
  assumes "wf fs" "Mkdir fs root = Inr fs1"
  shows "stored_titles root fs = {}" and "stored_titles root fs1 = {}"
proof -
  from assms(2) obtain d where d: "resolve fs root = Inr d" "node_at fs d = None"
    "fs1 = put_node fs d Dir"
    by (auto simp: Mkdir_def split: sum.splits option.splits)
  show "stored_titles root fs = {}"
    using d(1,2) by (simp add: stored_titles_def)
  have r1: "resolve fs1 root = Inr d"
    unfolding d(3) using d(1,2) by (intro resolve_put_file) auto
  have "node_at fs (d @ [x]) = None" for x
    using wf_entry[OF assms(1), of "d @ [x]"] d(2) by (cases "node_at fs (d @ [x])") auto
  then have "node_at fs1 (d @ [x]) = None" for x
    by (simp add: d(3) node_at_put)
  then show "stored_titles root fs1 = {}"
    using r1 by (simp add: stored_titles_def)
qed

lemma stored_titles_WriteFile:
  assumes "CHR ''/'' \<notin> set t" "root \<noteq> []"
    "WriteFile fs (root @ ''/'' @ t @ ''.txt'') b = Inr fs'"
  shows "stored_titles root fs' = insert t (stored_titles root fs)"
proof -
  from assms(3) obtain c where c: "resolve fs (root @ ''/'' @ t @ ''.txt'') = Inr c"
    "node_at fs c \<noteq> Some Dir" "fs' = put_node fs c (File b)"
    by (rule WriteFile_cases)
  from c(1) assms(2) components_txt_nonempty[of t]
  obtain d where d: "resolve fs root = Inr d" "node_at fs d = Some Dir"
    by (auto elim: resolve_below[of fs root "t @ ''.txt''" c])
  have cd: "c = d @ [t @ ''.txt'']"
    using resolve_page[OF d(1) _ assms(1), of c] c(1) by simp
  have r': "resolve fs' root = Inr d"
    unfolding c(3) using d(1) c(2) by (rule resolve_put_file)
  have d': "node_at fs' d = Some Dir"
    using d(2) by (simp add: c(3) node_at_put cd)
  show ?thesis
    unfolding stored_titles_at[OF r' d'] stored_titles_at[OF d]
    by (auto simp: c(3) cd node_at_put)
qed

lemma stored_titles_save:
  assumes "wf fs" "CHR ''/'' \<notin> set t"
    "save cfg \<lparr>pageModel.Title = t, Body = b\<rparr> fs = (None, fs')"
  shows "stored_titles (STORAGE_PATH cfg) fs' = insert t (stored_titles (STORAGE_PATH cfg) fs)"
proof -
  let ?root = "STORAGE_PATH cfg"
  from assms(3) obtain fs1 where fs1: "fs1 = fs \<or> Mkdir fs ?root = Inr fs1"
    "WriteFile fs1 (?root @ ''/'' @ t @ ''.txt'') b = Inr fs'"
    by (rule save_cases) simp
  have ne: "?root \<noteq> []"
    using assms(3) by (rule save_root_nonempty)
  have "stored_titles ?root fs1 = stored_titles ?root fs"
    using fs1(1) stored_titles_Mkdir[OF assms(1), of ?root fs1] by auto
  with stored_titles_WriteFile[OF assms(2) ne fs1(2)] show ?thesis
    by simp
qed

lemma delete_root_nonempty:
  assumes "delete cfg p fs = (None, fs')"
  shows "STORAGE_PATH cfg \<noteq> []"
proof
  assume "STORAGE_PATH cfg = []"
  then show False
    using assms by (simp add: delete_def Stat_def Mkdir_def resolve_def)
qed

lemma stored_titles_delete:
  assumes "CHR ''/'' \<notin> set t" "loadPage cfg t fs = Inr p"
    "delete cfg \<lparr>pageModel.Title = t, Body = b\<rparr> fs = (None, fs')"
  shows "stored_titles (STORAGE_PATH cfg) fs' = stored_titles (STORAGE_PATH cfg) fs - {t}"
proof -
  let ?root = "STORAGE_PATH cfg"
  let ?file = "?root @ ''/'' @ t @ ''.txt''"
  from assms(2) obtain c body where c: "resolve fs ?file = Inr c" "node_at fs c = Some (File body)"
    by (auto simp: loadPage_def ReadFile_def Let_def
        split: sum.splits option.splits node.splits if_splits)
  have ne: "?root \<noteq> []"
    using assms(3) by (rule delete_root_nonempty)
  from c(1) ne components_txt_nonempty[of t]
  obtain d where d: "resolve fs ?root = Inr d" "node_at fs d = Some Dir"
    by (auto elim: resolve_below[of fs ?root "t @ ''.txt''" c])
  have cd: "c = d @ [t @ ''.txt'']"
    using resolve_page[OF d(1) _ assms(1), of c] c(1) by simp
  have "Stat fs ?root = Inr Dir"
    using d by (auto simp: Stat_Dir_iff)
  moreover have "Remove fs ?file = Inr (del_node fs c)"
    using c by (simp add: Remove_def)
  ultimately have fs': "fs' = del_node fs c"
    using assms(3) by (simp add: delete_def)
  have r': "resolve fs' ?root = Inr d"
    unfolding fs' using d(1) by (rule resolve_del_file) (simp add: c(2))
  have d': "node_at fs' d = Some Dir"
    using d(2) by (simp add: fs' node_at_del cd)
  show ?thesis
    unfolding stored_titles_at[OF r' d'] stored_titles_at[OF d]
    by (auto simp: fs' cd node_at_del)
qed

text \<open>
  Claim C7 on the code. When the value of \<^verbatim>\<open>STORAGE_PATH\<close> is not in the form
  that \<^verbatim>\<open>filepath.Join\<close> cleans it to (here \<^verbatim>\<open>./data\<close> and
  \<^verbatim>\<open>data/\<close>), the matches of \<^verbatim>\<open>Glob\<close> start with the cleaned
  \<^verbatim>\<open>data/\<close>, the prefix that line 42 trims is not a prefix of them, and the listing
  shows \<^verbatim>\<open>data/test\<close> for the page that loads under the title
  \<^verbatim>\<open>test\<close>. With the root \<^verbatim>\<open>data\<close> the listing is
  \<^verbatim>\<open>test\<close>.
\<close>

theorem index_listing_unclean_root:
  "list_titles (ex_cfg ''./data'') ex_fs_page = Some [''data/test''] \<and>
   list_titles (ex_cfg ''data/'') ex_fs_page = Some [''data/test''] \<and>
   loadPage (ex_cfg ''./data'') ''test'' ex_fs_page =
     Inr \<lparr>pageModel.Title = ''test'', Body = ''hello''\<rparr> \<and>
   serve (ex_cfg ''./data'') (ex_request ''GET'' ''/'' []) ex_fs_page =
     ([Write ''<title>'', Write ''All Pages'', Write ''</title>'', Write ''<li>data/test</li>''],
      ex_fs_page) \<and>
   list_titles (ex_cfg ''data'') ex_fs_page = Some [''test'']"
  by code_simp

text \<open>
  For a storage root that \<^verbatim>\<open>filepath.Join\<close> leaves unchanged, the listing of
  \<^verbatim>\<open>indexHandler\<close> is right: on a well-formed file system \<^verbatim>\<open>Glob\<close>
  returns no error and the titles listed are exactly the titles of the entries of the storage
  directory that carry the extension; the listing is empty when the storage root is not an
  existing directory. The index page is rendered from that listing.
\<close>

theorem listing_of_clean_root:
  assumes "wf fs" "clean_root (STORAGE_PATH cfg)"
  shows "\<exists>ts. list_titles cfg fs = Some ts \<and>
           set ts = stored_titles (STORAGE_PATH cfg) fs \<and>
           (Stat fs (STORAGE_PATH cfg) \<noteq> Inr Dir \<longrightarrow> ts = []) \<and>
           indexHandler cfg r param fs =
             (renderTemplate cfg
                \<lparr>pageData.Title = ''All Pages'', Content = IndexContent \<lparr>Items = ts\<rparr>\<rparr>
                ''index'', fs)"
proof -
  from list_titles_clean_root[OF assms] obtain ts where ts: "list_titles cfg fs = Some ts"
    "set ts = stored_titles (STORAGE_PATH cfg) fs"
    by blast
  have "ts = []" if "Stat fs (STORAGE_PATH cfg) \<noteq> Inr Dir"
  proof -
    from that have "stored_titles (STORAGE_PATH cfg) fs = {}"
      by (auto simp: stored_titles_def Stat_Dir_iff)
    with ts(2) show ?thesis by simp
  qed
  with ts show ?thesis
    by (auto simp: indexHandler_def)
qed

lemma clean_root_data: "clean_root ''data''"
  by code_simp

lemma ex_fs_Stat_data_not_dir: "Stat ex_fs ''data'' \<noteq> Inr Dir"
  by (simp add: ex_fs_Stat_data)

theorem listing_of_clean_root_witness:
  "wf ex_fs \<and> clean_root ''data'' \<and> list_titles (ex_cfg ''data'') ex_fs = Some []"
  using listing_of_clean_root[where fs = ex_fs and cfg = "ex_cfg ''data''"]
    ex_fs_wf clean_root_data ex_fs_Stat_data_not_dir
  by (auto simp: ex_cfg_def)

text \<open>
  The scenario of the specification, for such a storage root: starting where no page is
  stored (the storage directory may not exist yet), after the pages \<^verbatim>\<open>a\<close>,
  \<^verbatim>\<open>b\<close> and \<^verbatim>\<open>c\<close> are saved and \<^verbatim>\<open>b\<close> is loaded and
  deleted, as \<^verbatim>\<open>deleteHandler\<close> does, the listing holds exactly
  \<^verbatim>\<open>a\<close> and \<^verbatim>\<open>c\<close>.
\<close>

theorem listing_after_saves_and_delete:
  assumes "wf fs" "clean_root (STORAGE_PATH cfg)" "stored_titles (STORAGE_PATH cfg) fs = {}"
    and "is_identifier a" "is_identifier b" "is_identifier c" "b \<noteq> a" "b \<noteq> c"
    and "save cfg \<lparr>pageModel.Title = a, Body = ba\<rparr> fs = (None, fs1)"
    and "save cfg \<lparr>pageModel.Title = b, Body = bb\<rparr> fs1 = (None, fs2)"
    and "save cfg \<lparr>pageModel.Title = c, Body = bc\<rparr> fs2 = (None, fs3)"
    and "loadPage cfg b fs3 = Inr p"
    and "delete cfg p fs3 = (None, fs4)"
  shows "\<exists>ts. list_titles cfg fs4 = Some ts \<and> set ts = {a, c}"
proof -
  let ?root = "STORAGE_PATH cfg"
  note ns = is_identifier_no_slash
  have w1: "wf fs1" using assms(1,9) by (rule wf_save)
  have w2: "wf fs2" using w1 assms(10) by (rule wf_save)
  have w3: "wf fs3" using w2 assms(11) by (rule wf_save)
  have w4: "wf fs4" using w3 assms(13) by (rule wf_delete)
  have s1: "stored_titles ?root fs1 = {a}"
    using stored_titles_save[OF assms(1) ns[OF assms(4)] assms(9)] assms(3) by simp
  have s2: "stored_titles ?root fs2 = {a, b}"
    using stored_titles_save[OF w1 ns[OF assms(5)] assms(10)] s1 by auto
  have s3: "stored_titles ?root fs3 = {a, b, c}"
    using stored_titles_save[OF w2 ns[OF assms(6)] assms(11)] s2 by auto
  have p: "p = \<lparr>pageModel.Title = b, Body = Body p\<rparr>"
    using assms(12) by (auto simp: loadPage_def Let_def split: sum.splits)
  have "delete cfg \<lparr>pageModel.Title = b, Body = Body p\<rparr> fs3 = (None, fs4)"
    using assms(13) p by simp
  from stored_titles_delete[OF ns[OF assms(5)] assms(12) this]
  have s4: "stored_titles ?root fs4 = {a, c}"
    using s3 assms(7,8) by auto
  from list_titles_clean_root[OF w4 assms(2)] s4 show ?thesis
    by simp
qed

lemma ex_is_identifier_abc: "is_identifier ''a''" "is_identifier ''b''" "is_identifier ''c''"
  by (simp_all add: is_identifier_def alnum_def less_eq_char_def)

lemma ex_stored_none: "stored_titles ''data'' ex_fs = {}"
proof -
  have "resolve ex_fs ''data'' = Inr [''srv'', ''data'']"
    by code_simp
  moreover have "node_at ex_fs [''srv'', ''data''] = None"
    by code_simp
  ultimately show ?thesis
    by (simp add: stored_titles_def)
qed

lemma ex_scenario_steps:
  "save (ex_cfg ''data'') \<lparr>pageModel.Title = ''a'', Body = ''text''\<rparr> ex_fs =
     (None, ex_fs_pages [''a''])"
  "save (ex_cfg ''data'') \<lparr>pageModel.Title = ''b'', Body = ''text''\<rparr> (ex_fs_pages [''a'']) =
     (None, ex_fs_pages [''a'', ''b''])"
  "save (ex_cfg ''data'') \<lparr>pageModel.Title = ''c'', Body = ''text''\<rparr> (ex_fs_pages [''a'', ''b'']) =
     (None, ex_fs_pages [''a'', ''b'', ''c''])"
  "loadPage (ex_cfg ''data'') ''b'' (ex_fs_pages [''a'', ''b'', ''c'']) =
     Inr \<lparr>pageModel.Title = ''b'', Body = ''text''\<rparr>"
  "delete (ex_cfg ''data'') \<lparr>pageModel.Title = ''b'', Body = ''text''\<rparr>
     (ex_fs_pages [''a'', ''b'', ''c'']) = (None, ex_fs_pages [''a'', ''c''])"
  by code_simp+

theorem listing_after_saves_and_delete_witness:
  "\<exists>ts. list_titles (ex_cfg ''data'') (ex_fs_pages [''a'', ''c'']) = Some ts \<and>
      set ts = {''a'', ''c''}"
proof -
  have root: "STORAGE_PATH (ex_cfg ''data'') = ''data''"
    by (simp add: ex_cfg_def)
  show ?thesis
    by (rule listing_after_saves_and_delete[where fs = ex_fs and a = "''a''" and b = "''b''"
          and c = "''c''", OF ex_fs_wf _ _ ex_is_identifier_abc _ _ ex_scenario_steps])
       (simp_all add: root clean_root_data ex_stored_none)
qed

end
